theory Spec2Isabelle
  imports Complex_Main
begin

section \<open>The credit-scoring pipeline (src/src/pipe.py, src/app.py)\<close>

text \<open>
  A shallow embedding of \<^verbatim>\<open>CreditDataPipeline\<close> and of the part of the Streamlit
  front end that feeds it.  The code is written against the Polars data-frame library;
  the library operations it calls are modelled here on lists, following the semantics
  of the Polars 1.x series:
  \<^item> a cell is an \<open>option\<close> (\<open>None\<close> is Polars' null);
  \<^item> \<open>Float64\<close> values are modelled by rationals: rounding, NaN and the infinities
    are outside the model;
  \<^item> the text of a table cell is a list of characters with codes below 256; the
    credit-history parse itself is modelled on Unicode code points;
  \<^item> a Python exception is a value of type \<open>error\<close>.
\<close>

subsection \<open>Errors\<close>

datatype error =
    ColumnNotFound string
  | DuplicateError string
  | InvalidOperation string
  | SchemaError string
  | ComputeError string

definition ebind :: "error + 'a \<Rightarrow> ('a \<Rightarrow> error + 'b) \<Rightarrow> error + 'b" where
  "ebind m f = (case m of Inl e \<Rightarrow> Inl e | Inr x \<Rightarrow> f x)"

fun foldE :: "('a \<Rightarrow> 's \<Rightarrow> error + 's) \<Rightarrow> 'a list \<Rightarrow> 's \<Rightarrow> error + 's" where
  "foldE f [] s = Inr s"
| "foldE f (x # xs) s = ebind (f x s) (foldE f xs)"

fun mapE :: "('a \<Rightarrow> error + 'b) \<Rightarrow> 'a list \<Rightarrow> error + 'b list" where
  "mapE f [] = Inr []"
| "mapE f (x # xs) = ebind (f x) (\<lambda>y. ebind (mapE f xs) (\<lambda>ys. Inr (y # ys)))"

subsection \<open>\<^verbatim>\<open>history_to_months\<close> (pipe.py, lines 25 and 46-60)\<close>

text \<open>
  A Python \<^verbatim>\<open>str\<close> is a sequence of Unicode code points, here a list of integers;
  \<open>py\<close> reads a text of this theory (characters with codes below 256) as such a
  sequence.
\<close>

type_synonym pystr = "int list"

definition py :: "string \<Rightarrow> pystr" where
  "py s = map of_char s"

text \<open>
  The pattern is compiled from a \<^verbatim>\<open>str\<close> without the \<^verbatim>\<open>re.ASCII\<close> flag, so
  \<^verbatim>\<open>\d\<close> matches every character that Unicode classes as a decimal digit, in any script,
  and \<^verbatim>\<open>int\<close> reads each such character as its decimal value.  These characters come
  in runs of ten, from the zero of a script to its nine; \<open>decimal_zeros\<close> lists the zeros
  (Unicode 14.0, the table of Python 3.11; later versions add scripts).
\<close>

definition decimal_zeros :: "int list" where
  "decimal_zeros =
     [0x30, 0x660, 0x6F0, 0x7C0, 0x966, 0x9E6, 0xA66, 0xAE6, 0xB66, 0xBE6, 0xC66, 0xCE6,
      0xD66, 0xDE6, 0xE50, 0xED0, 0xF20, 0x1040, 0x1090, 0x17E0, 0x1810, 0x1946, 0x19D0,
      0x1A80, 0x1A90, 0x1B50, 0x1BB0, 0x1C40, 0x1C50, 0xA620, 0xA8D0, 0xA900, 0xA9D0,
      0xA9F0, 0xAA50, 0xABF0, 0xFF10, 0x104A0, 0x10D30, 0x11066, 0x110F0, 0x11136,
      0x111D0, 0x112F0, 0x11450, 0x114D0, 0x11650, 0x116C0, 0x11730, 0x118E0, 0x11950,
      0x11C50, 0x11D50, 0x11DA0, 0x16A60, 0x16AC0, 0x16B50, 0x1D7CE, 0x1D7D8, 0x1D7E2,
      0x1D7EC, 0x1D7F6, 0x1E140, 0x1E2F0, 0x1E950, 0x1FBF0]"

definition decimal_value :: "int \<Rightarrow> int option" where
  "decimal_value c = map_option (\<lambda>z. c - z) (find (\<lambda>z. z \<le> c \<and> c < z + 10) decimal_zeros)"

definition is_digit :: "int \<Rightarrow> bool" where
  "is_digit c = (decimal_value c \<noteq> None)"

text \<open>\<^verbatim>\<open>int\<close> is only ever applied to a group that \<^verbatim>\<open>\d+\<close> has matched, a non-empty
  run of decimal digits, on which it does not raise (Python's limit on the length of such a
  run, 4300 digits by default, is outside the model).\<close>

definition digit_val :: "int \<Rightarrow> int" where
  "digit_val c = (case decimal_value c of Some d \<Rightarrow> d | None \<Rightarrow> 0)"

definition int_of_digits :: "pystr \<Rightarrow> int" where
  "int_of_digits ds = foldl (\<lambda>a c. 10 * a + digit_val c) 0 ds"

text \<open>
  The pattern is \<^verbatim>\<open>(?P<years>\d+) Years and (?P<months>\d+) Months\<close>, applied with
  \<^verbatim>\<open>re.match\<close>: anchored at the start of the string, not at its end.  Both literals
  that follow a \<^verbatim>\<open>\d+\<close> start with a space, so the greedy digit run is the only
  split that can succeed.
\<close>

definition pattern_match :: "pystr \<Rightarrow> (pystr \<times> pystr) option" where
  "pattern_match s =
     (let years = takeWhile is_digit s; r1 = dropWhile is_digit s in
      if years = [] then None
      else if take 11 r1 \<noteq> py '' Years and '' then None
      else
        let r2 = drop 11 r1; months = takeWhile is_digit r2; r3 = dropWhile is_digit r2 in
        if months = [] then None
        else if take 7 r3 \<noteq> py '' Months'' then None
        else Some (years, months))"

definition history_to_months :: "pystr option \<Rightarrow> int option" where
  "history_to_months history =
     (case history of
        None \<Rightarrow> None
      | Some h \<Rightarrow>
          (case pattern_match h of
             None \<Rightarrow> None
           | Some (years, months) \<Rightarrow> Some (int_of_digits years * 12 + int_of_digits months)))"

text \<open>
  What it means for a string to match the pattern, as the regular expression reads: the
  string is a non-empty run of digits, the literal, a second non-empty run of digits, the
  second literal, and then any text \<open>rest\<close>.
\<close>

definition all_digits :: "pystr \<Rightarrow> bool" where
  "all_digits ds = (ds \<noteq> [] \<and> list_all is_digit ds)"

definition starts_with_history :: "pystr \<Rightarrow> pystr \<Rightarrow> pystr \<Rightarrow> pystr \<Rightarrow> bool" where
  "starts_with_history s years months rest =
     (all_digits years \<and> all_digits months \<and>
      s = years @ py '' Years and '' @ months @ py '' Months'' @ rest)"

text \<open>The decimal numeral of a natural number in ASCII digits, to state the parse on \<open>N\<close>
  and \<open>M\<close>.\<close>

fun decimal :: "nat \<Rightarrow> pystr" where
  "decimal n =
     (if n < 10 then [48 + int n] else decimal (n div 10) @ [48 + int (n mod 10)])"

declare decimal.simps [simp del]

subsection \<open>Series and data frames\<close>

text \<open>
  A Polars series is a typed column.  The pipeline meets four dtypes: \<open>String\<close>,
  \<open>Float64\<close> and \<open>Int64\<close> in the tables it reads (what \<^verbatim>\<open>read_csv\<close> infers),
  and \<open>Int8\<close> in the columns it makes.  A data frame is the list of its named
  columns, in order.
\<close>

datatype series =
    StrS "string option list"
  | F64S "rat option list"
  | I64S "int option list"
  | I8S "int option list"

datatype val = VStr string | VInt int | VFloat rat

type_synonym dataframe = "(string \<times> series) list"

fun cells :: "series \<Rightarrow> val option list" where
  "cells (StrS xs) = map (map_option VStr) xs"
| "cells (F64S xs) = map (map_option VFloat) xs"
| "cells (I64S xs) = map (map_option VInt) xs"
| "cells (I8S xs) = map (map_option VInt) xs"

fun is_str :: "series \<Rightarrow> bool" where
  "is_str (StrS xs) = True"
| "is_str s = False"

text \<open>The numeric view of a column; it is read only where \<open>is_str\<close> has been ruled out.\<close>

fun nums :: "series \<Rightarrow> rat option list" where
  "nums (StrS xs) = map (\<lambda>v. None) xs"
| "nums (F64S xs) = xs"
| "nums (I64S xs) = map (map_option of_int) xs"
| "nums (I8S xs) = map (map_option of_int) xs"

fun ints :: "series \<Rightarrow> int option list" where
  "ints (I64S xs) = xs"
| "ints (I8S xs) = xs"
| "ints (StrS xs) = map (\<lambda>v. None) xs"
| "ints (F64S xs) = map (\<lambda>v. None) xs"

fun int_width :: "series \<Rightarrow> nat option" where
  "int_width (I64S xs) = Some 64"
| "int_width (I8S xs) = Some 8"
| "int_width s = None"

text \<open>Two's-complement wrap-around of a \<open>w\<close>-bit integer result.\<close>

definition wrap :: "nat \<Rightarrow> int \<Rightarrow> int" where
  "wrap w x = (x + 2 ^ (w - 1)) mod 2 ^ w - 2 ^ (w - 1)"

definition int_series :: "nat \<Rightarrow> int option list \<Rightarrow> series" where
  "int_series w xs = (if w = 8 then I8S (map (map_option (wrap 8)) xs)
                      else I64S (map (map_option (wrap 64)) xs))"

definition columns :: "dataframe \<Rightarrow> string list" where
  "columns df = map fst df"

definition get_column :: "string \<Rightarrow> dataframe \<Rightarrow> error + series" where
  "get_column n df = (case map_of df n of None \<Rightarrow> Inl (ColumnNotFound n) | Some s \<Rightarrow> Inr s)"

text \<open>\<^verbatim>\<open>with_columns\<close>: a named result replaces the column of that name, or is appended.\<close>

definition with_column :: "string \<Rightarrow> series \<Rightarrow> dataframe \<Rightarrow> dataframe" where
  "with_column n s df =
     (if n \<in> set (columns df) then map (\<lambda>c. if fst c = n then (n, s) else c) df
      else df @ [(n, s)])"

fun first_dup :: "string list \<Rightarrow> string" where
  "first_dup [] = []"
| "first_dup (x # xs) = (if x \<in> set xs then x else first_dup xs)"

definition with_columns :: "(string \<times> series) list \<Rightarrow> dataframe \<Rightarrow> error + dataframe" where
  "with_columns new df =
     (if distinct (map fst new) then Inr (fold (\<lambda>c. with_column (fst c) (snd c)) new df)
      else Inl (DuplicateError (first_dup (map fst new))))"

text \<open>\<^verbatim>\<open>DataFrame.drop\<close> (strict): every name must be a column.\<close>

definition drop_columns :: "string list \<Rightarrow> dataframe \<Rightarrow> error + dataframe" where
  "drop_columns ns df =
     (case filter (\<lambda>n. n \<notin> set (columns df)) ns of
        [] \<Rightarrow> Inr (filter (\<lambda>c. fst c \<notin> set ns) df)
      | n # rest \<Rightarrow> Inl (ColumnNotFound n))"

subsection \<open>What the code leaves to the library\<close>

text \<open>
  Four behaviours of Polars are not fixed by the source and are parameters of the model:
  how a string is read as a float, the order in which \<^verbatim>\<open>unique()\<close> lists the distinct
  values (Polars gives no order without \<^verbatim>\<open>maintain_order\<close>), which of several equally
  frequent values \<^verbatim>\<open>mode().first()\<close> returns, and the regular-expression engine on
  patterns that are more than a literal.
\<close>

record lib =
  str_to_f64 :: "string \<Rightarrow> rat option"
  unique_order :: "val list \<Rightarrow> val list"
  mode_choice :: "val list \<Rightarrow> nat"
  regex_search :: "string \<Rightarrow> (string \<Rightarrow> bool) option"

subsection \<open>Null-aware expressions\<close>

definition drop_nulls :: "'a option list \<Rightarrow> 'a list" where
  "drop_nulls xs = map the (filter (\<lambda>v. v \<noteq> None) xs)"

definition lift2 :: "('a \<Rightarrow> 'b \<Rightarrow> 'c) \<Rightarrow> 'a option \<Rightarrow> 'b option \<Rightarrow> 'c option" where
  "lift2 f a b = (case a of None \<Rightarrow> None | Some x \<Rightarrow> map_option (f x) b)"

text \<open>Comparisons and \<open>|\<close> follow Kleene logic: a null operand gives null, unless the other
  operand of \<open>|\<close> is true.\<close>

definition or_k :: "bool option \<Rightarrow> bool option \<Rightarrow> bool option" where
  "or_k a b = (if a = Some True \<or> b = Some True then Some True
               else if a = None \<or> b = None then None else Some False)"

text \<open>\<^verbatim>\<open>pl.when(c).then(None).otherwise(col)\<close>: null where the condition is true, the
  column's own value where it is false or null.\<close>

definition null_if :: "bool option list \<Rightarrow> 'a option list \<Rightarrow> 'a option list" where
  "null_if c xs = map2 (\<lambda>b x. if b = Some True then None else x) c xs"

fun null_where :: "bool option list \<Rightarrow> series \<Rightarrow> series" where
  "null_where c (StrS xs) = StrS (null_if c xs)"
| "null_where c (F64S xs) = F64S (null_if c xs)"
| "null_where c (I64S xs) = I64S (null_if c xs)"
| "null_where c (I8S xs) = I8S (null_if c xs)"

definition cmp :: "(rat \<Rightarrow> rat \<Rightarrow> bool) \<Rightarrow> series \<Rightarrow> series \<Rightarrow> error + bool option list" where
  "cmp r a b =
     (if is_str a \<or> is_str b then Inl (ComputeError ''cannot compare string with numeric type'')
      else Inr (map2 (lift2 r) (nums a) (nums b)))"

definition cmp_lit :: "(rat \<Rightarrow> rat \<Rightarrow> bool) \<Rightarrow> series \<Rightarrow> rat \<Rightarrow> error + bool option list" where
  "cmp_lit r a k =
     (if is_str a then Inl (ComputeError ''cannot compare string with numeric type'')
      else Inr (map (map_option (\<lambda>x. r x k)) (nums a)))"

text \<open>Arithmetic of two columns: the result has the wider integer dtype when both are
  integer columns (wrapping on overflow) and is \<open>Float64\<close> otherwise.\<close>

definition arith_op ::
  "(rat \<Rightarrow> rat \<Rightarrow> rat) \<Rightarrow> (int \<Rightarrow> int \<Rightarrow> int) \<Rightarrow> series \<Rightarrow> series \<Rightarrow> error + series" where
  "arith_op fr fi a b =
     (if is_str a \<or> is_str b then Inl (InvalidOperation ''arithmetic on a String column'')
      else case (int_width a, int_width b) of
             (Some wa, Some wb) \<Rightarrow> Inr (int_series (max wa wb) (map2 (lift2 fi) (ints a) (ints b)))
           | _ \<Rightarrow> Inr (F64S (map2 (lift2 fr) (nums a) (nums b))))"

definition mul_lit :: "int \<Rightarrow> series \<Rightarrow> error + series" where
  "mul_lit k a =
     (if is_str a then Inl (InvalidOperation ''arithmetic on a String column'')
      else case int_width a of
             Some w \<Rightarrow> Inr (int_series w (map (map_option (\<lambda>x. k * x)) (ints a)))
           | None \<Rightarrow> Inr (F64S (map (map_option (\<lambda>x. of_int k * x)) (nums a))))"

definition div_lit :: "series \<Rightarrow> int \<Rightarrow> error + series" where
  "div_lit a k =
     (if is_str a then Inl (InvalidOperation ''arithmetic on a String column'')
      else Inr (F64S (map (map_option (\<lambda>x. x / of_int k)) (nums a))))"

definition abs_s :: "series \<Rightarrow> error + series" where
  "abs_s a =
     (if is_str a then Inl (InvalidOperation ''abs of a String column'')
      else case int_width a of
             Some w \<Rightarrow> Inr (int_series w (map (map_option abs) (ints a)))
           | None \<Rightarrow> Inr (F64S (map (map_option abs) (nums a))))"

definition coalesce_opt :: "'a option list \<Rightarrow> 'a option list \<Rightarrow> 'a option list" where
  "coalesce_opt xs ys = map2 (\<lambda>x y. case x of None \<Rightarrow> y | Some v \<Rightarrow> Some v) xs ys"

text \<open>\<^verbatim>\<open>pl.coalesce([a, b])\<close>: the first non-null of the two, in their common supertype.\<close>

definition coalesce2 :: "series \<Rightarrow> series \<Rightarrow> error + series" where
  "coalesce2 a b =
     (case (a, b) of
        (StrS xs, StrS ys) \<Rightarrow> Inr (StrS (coalesce_opt xs ys))
      | _ \<Rightarrow>
        if is_str a \<or> is_str b then Inl (SchemaError ''failed to determine supertype'')
        else case (int_width a, int_width b) of
               (Some wa, Some wb) \<Rightarrow> Inr (int_series (max wa wb) (coalesce_opt (ints a) (ints b)))
             | _ \<Rightarrow> Inr (F64S (coalesce_opt (nums a) (nums b))))"


subsection \<open>Statistics, \<^verbatim>\<open>group_by\<close> and \<^verbatim>\<open>join\<close>\<close>

text \<open>The median of the non-null values: the middle one, or the mean of the two middle ones;
  null when there is none.\<close>

definition median :: "rat list \<Rightarrow> rat option" where
  "median xs =
     (let s = sort xs; n = length s in
      if n = 0 then None
      else if odd n then Some (s ! (n div 2))
      else Some ((s ! (n div 2 - 1) + s ! (n div 2)) / 2))"

text \<open>The most frequent values, in the order of their first occurrence; Polars does not
  fix which of them \<^verbatim>\<open>first()\<close> sees, the library parameter chooses.\<close>

definition modes :: "'a list \<Rightarrow> 'a list" where
  "modes xs =
     (let u = rev (remdups (rev xs)) in
      filter (\<lambda>x. list_all (\<lambda>y. count_list xs y \<le> count_list xs x) u) u)"

definition mode_first :: "lib \<Rightarrow> ('a \<Rightarrow> val) \<Rightarrow> 'a list \<Rightarrow> 'a option" where
  "mode_first L enc xs =
     (case modes xs of
        [] \<Rightarrow> None
      | m # ms \<Rightarrow> Some ((m # ms) ! (mode_choice L (map enc (m # ms)) mod length (m # ms))))"

text \<open>The values of the rows whose key is \<open>k\<close>.  A null key is a group of its own in
  \<^verbatim>\<open>group_by\<close>.\<close>

definition group_vals :: "'k list \<Rightarrow> 'v list \<Rightarrow> 'k \<Rightarrow> 'v list" where
  "group_vals ks vs k = map snd (filter (\<lambda>kv. fst kv = k) (zip ks vs))"

fun unique_s :: "series \<Rightarrow> series" where
  "unique_s (StrS xs) = StrS (remdups xs)"
| "unique_s (F64S xs) = F64S (remdups xs)"
| "unique_s (I64S xs) = I64S (remdups xs)"
| "unique_s (I8S xs) = I8S (remdups xs)"

datatype agg = Median | ModeFirst

definition eval_agg ::
  "lib \<Rightarrow> agg \<Rightarrow> val option list \<Rightarrow> val option list \<Rightarrow> series \<Rightarrow> error + series" where
  "eval_agg L a ks gks s =
     (case a of
        Median \<Rightarrow>
          if is_str s then Inl (InvalidOperation ''median operation not supported for dtype str'')
          else Inr (F64S (map (\<lambda>k. median (drop_nulls (group_vals ks (nums s) k))) gks))
      | ModeFirst \<Rightarrow>
          Inr (case s of
                 StrS xs \<Rightarrow> StrS (map (\<lambda>k. mode_first L VStr (drop_nulls (group_vals ks xs k))) gks)
               | F64S xs \<Rightarrow> F64S (map (\<lambda>k. mode_first L VFloat (drop_nulls (group_vals ks xs k))) gks)
               | I64S xs \<Rightarrow> I64S (map (\<lambda>k. mode_first L VInt (drop_nulls (group_vals ks xs k))) gks)
               | I8S xs \<Rightarrow> I8S (map (\<lambda>k. mode_first L VInt (drop_nulls (group_vals ks xs k))) gks)))"

text \<open>
  \<^verbatim>\<open>df.group_by(key).agg([...])\<close>, each aggregate given as (source column, aggregate,
  alias).  The result has one row per distinct key, null included.  Polars leaves the
  order of these rows open; the pipeline only ever joins the result back on the key, so the
  order chosen here does not show.
\<close>

definition group_by_agg ::
  "lib \<Rightarrow> string \<Rightarrow> (string \<times> agg \<times> string) list \<Rightarrow> dataframe \<Rightarrow> error + dataframe" where
  "group_by_agg L key aggs df =
     ebind (get_column key df) (\<lambda>kc.
     ebind (mapE (\<lambda>a. get_column (fst a) df) aggs) (\<lambda>srcs.
       let names = key # map (\<lambda>a. snd (snd a)) aggs; ks = cells kc; gks = remdups ks in
       if \<not> distinct names then Inl (DuplicateError (first_dup names))
       else
         ebind (mapE (\<lambda>a. eval_agg L (fst (snd (fst a))) ks gks (snd a)) (zip aggs srcs)) (\<lambda>outs.
           Inr ((key, unique_s kc) # zip (map (\<lambda>a. snd (snd a)) aggs) outs))))"

fun first_index :: "'a list \<Rightarrow> 'a \<Rightarrow> nat option" where
  "first_index [] x = None"
| "first_index (y # ys) x = (if y = x then Some 0 else map_option Suc (first_index ys x))"

definition gather :: "nat option list \<Rightarrow> 'a option list \<Rightarrow> 'a option list" where
  "gather idx xs =
     map (\<lambda>j. case j of None \<Rightarrow> None | Some i \<Rightarrow> if i < length xs then xs ! i else None) idx"

fun take_rows :: "nat option list \<Rightarrow> series \<Rightarrow> series" where
  "take_rows idx (StrS xs) = StrS (gather idx xs)"
| "take_rows idx (F64S xs) = F64S (gather idx xs)"
| "take_rows idx (I64S xs) = I64S (gather idx xs)"
| "take_rows idx (I8S xs) = I8S (gather idx xs)"

text \<open>
  \<^verbatim>\<open>df.join(right, on=key, how="left", suffix=...)\<close> for a right frame whose keys are
  distinct (it is always a \<^verbatim>\<open>group_by\<close> result here): every left row is kept, in
  order, and gets the right frame's other columns from the row with its key.  A null key
  matches nothing (Polars' default, \<^verbatim>\<open>nulls_equal=False\<close>).  A right column whose
  name the left frame already has is renamed with the suffix.
\<close>

definition match_rows :: "series \<Rightarrow> series \<Rightarrow> nat option list" where
  "match_rows lk rk =
     map (\<lambda>k. case k of None \<Rightarrow> None | Some v \<Rightarrow> first_index (cells rk) (Some v)) (cells lk)"

definition join_left :: "dataframe \<Rightarrow> dataframe \<Rightarrow> string \<Rightarrow> string \<Rightarrow> error + dataframe" where
  "join_left df right key suffix =
     ebind (get_column key df) (\<lambda>lk.
     ebind (get_column key right) (\<lambda>rk.
       let new = map (\<lambda>c. (if fst c \<in> set (columns df) then fst c @ suffix else fst c,
                           take_rows (match_rows lk rk) (snd c)))
                     (filter (\<lambda>c. fst c \<noteq> key) right)
       in if distinct (columns df @ map fst new) then Inr (df @ new)
          else Inl (DuplicateError (first_dup (columns df @ map fst new)))))"

text \<open>
  What the two steps together put beside a row, given the keys \<open>ks\<close> of the rows: the
  statistic \<open>f\<close> of the row's group, and null beside a row whose key is null.
\<close>

definition joined :: "('k option \<Rightarrow> 'v option) \<Rightarrow> 'k option list \<Rightarrow> 'v option list" where
  "joined f ks = map (\<lambda>k. case k of None \<Rightarrow> None | Some v \<Rightarrow> f (Some v)) ks"

subsection \<open>The pipeline instance (pipe.py, lines 7-44)\<close>

record pipeline =
  numeric_cols :: "string list"
  cat_cols :: "string list"
  loan_types :: "string list"
  cat_cols_auto_encode :: "string list"
  global_medians :: "(string \<times> rat option) list"
  global_modes :: "(string \<times> series) list"
  cat_mappings :: "(string \<times> (val \<times> int) list) list"
  loan_cols :: "string list"
  cols_to_drop :: "string list"
  credit_mix_map :: "(string \<times> int) list"
  payment_map :: "(string \<times> int) list"

text \<open>\<^verbatim>\<open>lt.replace('-', '').replace(' ', '_')\<close>\<close>

definition sanitize :: "string \<Rightarrow> string" where
  "sanitize lt = map (\<lambda>c. if c = CHR '' '' then CHR ''_'' else c) (filter (\<lambda>c. c \<noteq> CHR ''-'') lt)"

definition loan_col :: "string \<Rightarrow> string" where
  "loan_col lt = ''Loan_'' @ sanitize lt"

definition init :: "string list \<Rightarrow> string list \<Rightarrow> string list \<Rightarrow> string list option \<Rightarrow> pipeline" where
  "init numeric cat loans auto_encode =
     \<lparr> numeric_cols = numeric,
       cat_cols = cat,
       loan_types = loans,
       cat_cols_auto_encode = (case auto_encode of None \<Rightarrow> [] | Some cs \<Rightarrow> cs),
       global_medians = [],
       global_modes = [],
       cat_mappings = [],
       loan_cols = map loan_col loans,
       cols_to_drop = [''Customer_ID'', ''Name'', ''SSN'', ''Month'', ''Annual_Income'',
                       ''Type_of_Loan'', ''median_age_per_occ''],
       credit_mix_map = [(''Bad'', 0), (''Standard'', 1), (''Good'', 2)],
       payment_map = [(''No'', 0), (''NM'', 0), (''Yes'', 1)] \<rparr>"

subsection \<open>\<^verbatim>\<open>fit\<close> (pipe.py, lines 62-77)\<close>

text \<open>A Python dict as an association list in insertion order: assigning to a key that is
  present replaces its value in place.\<close>

fun dict_set :: "('k \<Rightarrow> 'k \<Rightarrow> bool) \<Rightarrow> 'k \<Rightarrow> 'v \<Rightarrow> ('k \<times> 'v) list \<Rightarrow> ('k \<times> 'v) list" where
  "dict_set eq k v [] = [(k, v)]"
| "dict_set eq k v (e # d) = (if eq (fst e) k then (fst e, v) # d else e # dict_set eq k v d)"

fun dict_get :: "('k \<Rightarrow> 'k \<Rightarrow> bool) \<Rightarrow> ('k \<times> 'v) list \<Rightarrow> 'k \<Rightarrow> 'v option" where
  "dict_get eq [] k = None"
| "dict_get eq (e # d) k = (if eq (fst e) k then Some (snd e) else dict_get eq d k)"

text \<open>Python's \<open>==\<close> on dict keys: an int and a float of the same value are the same key.\<close>

fun py_eq :: "val \<Rightarrow> val \<Rightarrow> bool" where
  "py_eq (VStr a) (VStr b) = (a = b)"
| "py_eq (VInt a) (VInt b) = (a = b)"
| "py_eq (VFloat a) (VFloat b) = (a = b)"
| "py_eq (VInt a) (VFloat b) = (of_int a = b)"
| "py_eq (VFloat a) (VInt b) = (a = of_int b)"
| "py_eq a b = False"

definition series_median :: "series \<Rightarrow> error + rat option" where
  "series_median s =
     (if is_str s then Inl (InvalidOperation ''median operation not supported for dtype str'')
      else Inr (median (drop_nulls (nums s))))"

fun series_mode :: "series \<Rightarrow> series" where
  "series_mode (StrS xs) = StrS (map Some (modes (drop_nulls xs)))"
| "series_mode (F64S xs) = F64S (map Some (modes (drop_nulls xs)))"
| "series_mode (I64S xs) = I64S (map Some (modes (drop_nulls xs)))"
| "series_mode (I8S xs) = I8S (map Some (modes (drop_nulls xs)))"

text \<open>\<^verbatim>\<open>{v: i for i, v in enumerate(unique_vals)}\<close>\<close>

definition enumerate_dict :: "val list \<Rightarrow> (val \<times> int) list" where
  "enumerate_dict vs = fold (\<lambda>e d. dict_set py_eq (snd e) (int (fst e)) d) (enumerate 0 vs) []"

definition fit_median :: "dataframe \<Rightarrow> string \<Rightarrow> pipeline \<Rightarrow> error + pipeline" where
  "fit_median df col p =
     ebind (get_column col df) (\<lambda>s.
     ebind (series_median s) (\<lambda>m.
       Inr (p\<lparr>global_medians := dict_set (=) col m (global_medians p)\<rparr>)))"

definition fit_mode :: "dataframe \<Rightarrow> string \<Rightarrow> pipeline \<Rightarrow> error + pipeline" where
  "fit_mode df col p =
     ebind (get_column col df) (\<lambda>s.
       Inr (p\<lparr>global_modes := dict_set (=) col (series_mode s) (global_modes p)\<rparr>))"

definition fit_mapping :: "lib \<Rightarrow> dataframe \<Rightarrow> string \<Rightarrow> pipeline \<Rightarrow> error + pipeline" where
  "fit_mapping L df col p =
     ebind (get_column col df) (\<lambda>s.
       let unique_vals = unique_order L (drop_nulls (cells s)) in
       Inr (p\<lparr>cat_mappings := dict_set (=) col (enumerate_dict unique_vals) (cat_mappings p)\<rparr>))"

text \<open>A loop over the instance: an exception leaves the instance as the iterations before it
  made it.\<close>

fun foldS :: "('a \<Rightarrow> 's \<Rightarrow> error + 's) \<Rightarrow> 'a list \<Rightarrow> 's \<Rightarrow> error option \<times> 's" where
  "foldS f [] s = (None, s)"
| "foldS f (x # xs) s = (case f x s of Inl e \<Rightarrow> (Some e, s) | Inr s' \<Rightarrow> foldS f xs s')"

definition fit :: "lib \<Rightarrow> dataframe \<Rightarrow> pipeline \<Rightarrow> error option \<times> pipeline" where
  "fit L df p =
     (case foldS (fit_median df) (numeric_cols p) p of
        (Some e, p1) \<Rightarrow> (Some e, p1)
      | (None, p1) \<Rightarrow>
          (case foldS (fit_mode df) (cat_cols p1) p1 of
             (Some e, p2) \<Rightarrow> (Some e, p2)
           | (None, p2) \<Rightarrow> foldS (fit_mapping L df) (cat_cols_auto_encode p2) p2))"

subsection \<open>\<^verbatim>\<open>transform\<close>: TextNormalizer (pipe.py, lines 82-93)\<close>

definition strip_chars :: "string \<Rightarrow> string \<Rightarrow> string" where
  "strip_chars cs s =
     rev (dropWhile (\<lambda>c. c \<in> set cs) (rev (dropWhile (\<lambda>c. c \<in> set cs) s)))"

text \<open>An expression over \<^verbatim>\<open>pl.col(pl.String)\<close>: every String column, value by value, nulls
  left as they are; the other columns untouched.\<close>

definition map_str_cols :: "(string \<Rightarrow> string option) \<Rightarrow> dataframe \<Rightarrow> dataframe" where
  "map_str_cols f df =
     map (\<lambda>c. (fst c, case snd c of StrS xs \<Rightarrow> StrS (map (\<lambda>v. Option.bind v f) xs) | s \<Rightarrow> s)) df"

definition sentinels :: "string list" where
  "sentinels = [[], ''_'', ''!@9#%8'']"

definition replace_null :: "string list \<Rightarrow> string \<Rightarrow> string option" where
  "replace_null old v = (if v \<in> set old then None else Some v)"

definition text_normalizer :: "dataframe \<Rightarrow> dataframe" where
  "text_normalizer df =
     map_str_cols (replace_null sentinels) (map_str_cols (\<lambda>v. Some (strip_chars ''_'' v)) df)"

subsection \<open>TypeCoercer (pipe.py, lines 95-131)\<close>

definition float_cols :: "string list" where
  "float_cols = [''Age'', ''Annual_Income'', ''Num_of_Loan'', ''Num_of_Delayed_Payment'',
                 ''Changed_Credit_Limit'', ''Outstanding_Debt'', ''Amount_invested_monthly'',
                 ''Monthly_Balance'']"

text \<open>\<^verbatim>\<open>cast(pl.Float64)\<close> is strict: a string that does not read as a float raises.\<close>

definition cast_f64 :: "lib \<Rightarrow> series \<Rightarrow> error + series" where
  "cast_f64 L s =
     (case s of
        StrS xs \<Rightarrow>
          if list_all (\<lambda>v. case v of None \<Rightarrow> True | Some t \<Rightarrow> str_to_f64 L t \<noteq> None) xs
          then Inr (F64S (map (\<lambda>v. Option.bind v (str_to_f64 L)) xs))
          else Inl (InvalidOperation ''conversion from str to f64 failed'')
      | s \<Rightarrow> Inr (F64S (nums s)))"

text \<open>\<^verbatim>\<open>map_elements(self.history_to_months, return_dtype=pl.Float64)\<close>: nulls are skipped;
  on a value that is not a string, \<^verbatim>\<open>pattern.match\<close> raises a TypeError.\<close>

definition history_expr :: "series \<Rightarrow> error + series" where
  "history_expr s =
     (case s of
        StrS xs \<Rightarrow>
          Inr (F64S (map (\<lambda>v. case v of None \<Rightarrow> None
                                | Some h \<Rightarrow> map_option of_int (history_to_months (Some (py h)))) xs))
      | s \<Rightarrow>
          if list_all (\<lambda>v. v = None) (cells s) then Inr (F64S (map (\<lambda>v. None) (cells s)))
          else Inl (ComputeError ''TypeError: expected string or bytes-like object''))"

definition cast_columns :: "lib \<Rightarrow> dataframe \<Rightarrow> error + dataframe" where
  "cast_columns L df =
     ebind (mapE (\<lambda>c. get_column c df) float_cols) (\<lambda>srcs.
     ebind (get_column ''Credit_History_Age'' df) (\<lambda>h.
     ebind (mapE (cast_f64 L) srcs) (\<lambda>casts.
     ebind (history_expr h) (\<lambda>months.
       with_columns (zip float_cols casts @ [(''Credit_History_Age'', months)]) df))))"

text \<open>\<^verbatim>\<open>pl.when((pl.col("Age") < 18) | (pl.col("Age") > 100)).then(None).otherwise(pl.col("Age"))\<close>\<close>

definition age_bounds :: "dataframe \<Rightarrow> error + dataframe" where
  "age_bounds df =
     ebind (get_column ''Age'' df) (\<lambda>age.
     ebind (cmp_lit (<) age 18) (\<lambda>low.
     ebind (cmp_lit (>) age 100) (\<lambda>high.
       Inr (with_column ''Age'' (null_where (map2 or_k low high) age) df))))"

text \<open>\<^verbatim>\<open>lambda x: None if x < 0 else x\<close> over every Int64 and every Float64 column.\<close>

definition null_negative :: "('a :: {zero, ord}) option \<Rightarrow> 'a option" where
  "null_negative v = (case v of None \<Rightarrow> None | Some x \<Rightarrow> if x < 0 then None else Some x)"

definition scrub_negatives :: "dataframe \<Rightarrow> dataframe" where
  "scrub_negatives df =
     map (\<lambda>c. (fst c, case snd c of
                        I64S xs \<Rightarrow> I64S (map null_negative xs)
                      | F64S xs \<Rightarrow> F64S (map null_negative xs)
                      | s \<Rightarrow> s)) df"

definition type_coercer :: "lib \<Rightarrow> dataframe \<Rightarrow> error + dataframe" where
  "type_coercer L df =
     ebind (cast_columns L df) (\<lambda>d1.
     ebind (age_bounds d1) (\<lambda>d2.
       Inr (scrub_negatives d2)))"

text \<open>Lines 80 to 131: the table after TextNormalizer and TypeCoercer.\<close>

definition coerced :: "lib \<Rightarrow> dataframe \<Rightarrow> error + dataframe" where
  "coerced L df = type_coercer L (text_normalizer df)"

subsection \<open>GroupStatistics (pipe.py, lines 133-155)\<close>

definition group_medians :: "lib \<Rightarrow> pipeline \<Rightarrow> dataframe \<Rightarrow> error + dataframe" where
  "group_medians L p df =
     ebind (group_by_agg L ''Customer_ID''
              (map (\<lambda>col. (col, Median, col @ ''_median'')) (numeric_cols p)) df) (\<lambda>medians.
       join_left df medians ''Customer_ID'' ''_right'')"

text \<open>\<^verbatim>\<open>(pl.col(col) - pl.col(f"{col}_median")).abs().alias(f"{col}_abs_dev")\<close>\<close>

definition abs_dev_step :: "string \<Rightarrow> dataframe \<Rightarrow> error + dataframe" where
  "abs_dev_step col df =
     ebind (get_column col df) (\<lambda>x.
     ebind (get_column (col @ ''_median'') df) (\<lambda>m.
     ebind (arith_op (-) (-) x m) (\<lambda>d.
     ebind (abs_s d) (\<lambda>a.
       Inr (with_column (col @ ''_abs_dev'') a df)))))"

definition group_mads :: "lib \<Rightarrow> pipeline \<Rightarrow> dataframe \<Rightarrow> error + dataframe" where
  "group_mads L p df =
     ebind (group_by_agg L ''Customer_ID''
              (map (\<lambda>col. (col @ ''_abs_dev'', Median, col @ ''_mad'')) (numeric_cols p)) df) (\<lambda>mad.
       join_left df mad ''Customer_ID'' ''_right'')"

definition group_statistics :: "lib \<Rightarrow> pipeline \<Rightarrow> dataframe \<Rightarrow> error + dataframe" where
  "group_statistics L p df =
     ebind (group_medians L p df) (\<lambda>d1.
     ebind (foldE abs_dev_step (numeric_cols p) d1) (\<lambda>d2.
       group_mads L p d2))"

subsection \<open>RobustOutlierFilter (pipe.py, lines 157-176)\<close>

definition outlier_expr :: "series \<Rightarrow> series \<Rightarrow> series \<Rightarrow> error + series" where
  "outlier_expr x m d =
     ebind (mul_lit 3 d) (\<lambda>d3.
     ebind (arith_op (-) (-) m d3) (\<lambda>lo.
     ebind (arith_op (+) (+) m d3) (\<lambda>hi.
     ebind (cmp (<) x lo) (\<lambda>below.
     ebind (cmp (>) x hi) (\<lambda>above.
       Inr (null_where (map2 or_k below above) x))))))"

definition outlier_step :: "string \<Rightarrow> dataframe \<Rightarrow> error + dataframe" where
  "outlier_step col df =
     ebind (get_column col df) (\<lambda>x.
     ebind (get_column (col @ ''_median'') df) (\<lambda>m.
     ebind (get_column (col @ ''_mad'') df) (\<lambda>d.
     ebind (outlier_expr x m d) (\<lambda>s.
       Inr (with_column col s df)))))"

definition robust_outlier_filter :: "pipeline \<Rightarrow> dataframe \<Rightarrow> error + dataframe" where
  "robust_outlier_filter p df = foldE outlier_step (numeric_cols p) df"

text \<open>Lines 133 to 176: the table after the filter, from the table the coercion left.\<close>

definition filtered_table :: "lib \<Rightarrow> pipeline \<Rightarrow> dataframe \<Rightarrow> error + dataframe" where
  "filtered_table L p df = ebind (group_statistics L p df) (robust_outlier_filter p)"

subsection \<open>HierarchicalImputer (pipe.py, lines 178-220)\<close>

text \<open>The per-customer modes are all computed from the table as the filter left it, and
  joined one after the other.\<close>

definition group_modes :: "lib \<Rightarrow> pipeline \<Rightarrow> dataframe \<Rightarrow> error + dataframe" where
  "group_modes L p df =
     ebind (mapE (\<lambda>col. group_by_agg L ''Customer_ID'' [(col, ModeFirst, col @ ''_mode'')] df)
              (cat_cols p)) (\<lambda>cat_imputes.
       foldE (\<lambda>impute d. join_left d impute ''Customer_ID'' ''_mode'') cat_imputes df)"

text \<open>\<^verbatim>\<open>pl.coalesce([pl.col(col), pl.col(f"{col}<suffix>")]).alias(col)\<close>, for all the columns
  of the list in one \<^verbatim>\<open>with_columns\<close>: every expression reads the table as it was.\<close>

definition coalesce_with :: "string \<Rightarrow> string list \<Rightarrow> dataframe \<Rightarrow> error + dataframe" where
  "coalesce_with suffix cols df =
     ebind (mapE (\<lambda>col.
              ebind (get_column col df) (\<lambda>x.
              ebind (get_column (col @ suffix) df) (\<lambda>m.
              ebind (coalesce2 x m) (\<lambda>s. Inr (col, s))))) cols) (\<lambda>new.
       with_columns new df)"

definition impute_numeric :: "pipeline \<Rightarrow> dataframe \<Rightarrow> error + dataframe" where
  "impute_numeric p df = coalesce_with ''_median'' (numeric_cols p) df"

definition impute_categorical :: "pipeline \<Rightarrow> dataframe \<Rightarrow> error + dataframe" where
  "impute_categorical p df = coalesce_with ''_mode'' (cat_cols p) df"

text \<open>\<^verbatim>\<open>pl.when(a.is_null()).then(b).otherwise(a)\<close> with a \<open>Float64\<close> \<open>b\<close>.\<close>

definition when_null :: "series \<Rightarrow> series \<Rightarrow> error + series" where
  "when_null a b =
     (if is_str a \<or> is_str b then Inl (SchemaError ''failed to determine supertype'')
      else Inr (F64S (coalesce_opt (nums a) (nums b))))"

definition secondary_fallbacks :: "lib \<Rightarrow> dataframe \<Rightarrow> error + dataframe" where
  "secondary_fallbacks L df =
     ebind (group_by_agg L ''Occupation'' [(''Age'', Median, ''median_age_per_occ'')] df)
       (\<lambda>median_age_per_occ.
     ebind (join_left df median_age_per_occ ''Occupation'' ''_right'') (\<lambda>d.
     ebind (get_column ''Age'' d) (\<lambda>age.
     ebind (get_column ''median_age_per_occ'' d) (\<lambda>occ.
     ebind (get_column ''Monthly_Inhand_Salary'' d) (\<lambda>salary.
     ebind (get_column ''Annual_Income'' d) (\<lambda>income.
     ebind (ebind (coalesce2 age occ) (cast_f64 L)) (\<lambda>age'.
     ebind (ebind (div_lit income 12) (when_null salary)) (\<lambda>salary'.
       with_columns [(''Age'', age'), (''Monthly_Inhand_Salary'', salary')] d))))))))"

text \<open>Lines 178 to 191: the modes are joined, then the numeric nulls are filled.\<close>

definition numeric_imputation :: "lib \<Rightarrow> pipeline \<Rightarrow> dataframe \<Rightarrow> error + dataframe" where
  "numeric_imputation L p df = ebind (group_modes L p df) (impute_numeric p)"

definition hierarchical_imputer :: "lib \<Rightarrow> pipeline \<Rightarrow> dataframe \<Rightarrow> error + dataframe" where
  "hierarchical_imputer L p df =
     ebind (numeric_imputation L p df) (\<lambda>d2.
     ebind (impute_categorical p d2) (\<lambda>d3.
       secondary_fallbacks L d3))"

subsection \<open>LoanMultiHotEncoder (pipe.py, lines 222-234)\<close>

definition fill_null_str :: "string \<Rightarrow> series \<Rightarrow> error + series" where
  "fill_null_str v s =
     (case s of
        StrS xs \<Rightarrow> Inr (StrS (map (\<lambda>x. case x of None \<Rightarrow> Some v | Some t \<Rightarrow> Some t) xs))
      | s \<Rightarrow> Inl (SchemaError ''fill_null with a string on a column that is not String''))"

text \<open>
  The pattern is \<^verbatim>\<open>rf"\b{loan}\b"\<close>: the loan type is pasted into the regular expression
  as it is.  For a loan type made of letters, digits, spaces, hyphens and underscores only,
  the pattern is the literal text between two word boundaries, and the search is modelled
  here; for any other loan type the library's engine decides (it may also reject the
  pattern).  Word characters are the ASCII ones.
\<close>

definition is_alnum :: "char \<Rightarrow> bool" where
  "is_alnum c =
     (let n = (of_char c :: nat) in
      (48 \<le> n \<and> n \<le> 57) \<or> (65 \<le> n \<and> n \<le> 90) \<or> (97 \<le> n \<and> n \<le> 122))"

definition is_word_char :: "char \<Rightarrow> bool" where
  "is_word_char c = (is_alnum c \<or> c = CHR ''_'')"

definition plain_pattern :: "string \<Rightarrow> bool" where
  "plain_pattern p = list_all (\<lambda>c. is_word_char c \<or> c = CHR '' '' \<or> c = CHR ''-'') p"

text \<open>\<^verbatim>\<open>\b\<close> at position \<open>i\<close>: exactly one of the characters before and after is a word
  character (the ends of the string count as non-word).\<close>

definition word_boundary :: "string \<Rightarrow> nat \<Rightarrow> bool" where
  "word_boundary s i =
     ((0 < i \<and> is_word_char (s ! (i - 1))) \<noteq> (i < length s \<and> is_word_char (s ! i)))"

definition contains_word :: "string \<Rightarrow> string \<Rightarrow> bool" where
  "contains_word p s =
     list_ex (\<lambda>i. take (length p) (drop i s) = p \<and> word_boundary s i
                  \<and> word_boundary s (i + length p))
             [0..<Suc (length s)]"

definition word_pattern :: "string \<Rightarrow> string" where
  "word_pattern loan = [CHR 0x5C, CHR ''b''] @ loan @ [CHR 0x5C, CHR ''b'']"

definition loan_search :: "lib \<Rightarrow> string \<Rightarrow> error + (string \<Rightarrow> bool)" where
  "loan_search L loan =
     (if plain_pattern loan then Inr (contains_word loan)
      else case regex_search L (word_pattern loan) of
             None \<Rightarrow> Inl (ComputeError ''regex error'')
           | Some f \<Rightarrow> Inr f)"

text \<open>\<^verbatim>\<open>pl.col("Type_of_Loan").str.contains(...).cast(pl.Int8).alias(...)\<close>\<close>

definition loan_indicator :: "lib \<Rightarrow> series \<Rightarrow> string \<Rightarrow> error + string \<times> series" where
  "loan_indicator L t loan =
     (case t of
        StrS xs \<Rightarrow>
          ebind (loan_search L loan) (\<lambda>f.
            Inr (loan_col loan, I8S (map (map_option (\<lambda>s. if f s then 1 else 0)) xs)))
      | s \<Rightarrow> Inl (SchemaError ''str.contains on a column that is not String''))"

definition loan_multi_hot :: "lib \<Rightarrow> pipeline \<Rightarrow> dataframe \<Rightarrow> error + dataframe" where
  "loan_multi_hot L p df =
     ebind (get_column ''Type_of_Loan'' df) (\<lambda>t.
     ebind (fill_null_str [] t) (\<lambda>filled.
       let d = with_column ''Type_of_Loan'' filled df in
       ebind (mapE (loan_indicator L filled) (loan_types p)) (\<lambda>new.
         with_columns new d)))"

subsection \<open>CategoricalEncoder (pipe.py, lines 236-263)\<close>

text \<open>\<^verbatim>\<open>map_elements(lambda x: mapping.get(x, None))\<close>: nulls are skipped, a key that is not
  in the dict gives null.  The two fixed maps have string keys, which no number equals.\<close>

definition map_fixed :: "(string \<times> int) list \<Rightarrow> series \<Rightarrow> int option list" where
  "map_fixed m s =
     (case s of
        StrS xs \<Rightarrow> map (\<lambda>v. Option.bind v (dict_get (=) m)) xs
      | s \<Rightarrow> map (\<lambda>v. None) (cells s))"

definition fixed_maps :: "pipeline \<Rightarrow> dataframe \<Rightarrow> error + dataframe" where
  "fixed_maps p df =
     ebind (get_column ''Credit_Mix'' df) (\<lambda>mix.
     ebind (get_column ''Payment_of_Min_Amount'' df) (\<lambda>pay.
       with_columns [(''Credit_Mix'', I64S (map_fixed (credit_mix_map p) mix)),
                     (''Payment_of_Min_Amount'', I8S (map_fixed (payment_map p) pay))] df))"

definition auto_encode_expr :: "(val \<times> int) list \<Rightarrow> series \<Rightarrow> series" where
  "auto_encode_expr mapping s = I64S (map (\<lambda>v. Option.bind v (dict_get py_eq mapping)) (cells s))"

definition auto_encode_step :: "string \<times> (val \<times> int) list \<Rightarrow> dataframe \<Rightarrow> error + dataframe" where
  "auto_encode_step e df =
     ebind (get_column (fst e) df) (\<lambda>s.
       Inr (with_column (fst e) (auto_encode_expr (snd e) s) df))"

definition categorical_encoder :: "pipeline \<Rightarrow> dataframe \<Rightarrow> error + dataframe" where
  "categorical_encoder p df =
     ebind (fixed_maps p df) (\<lambda>d.
       foldE auto_encode_step (cat_mappings p) d)"

subsection \<open>ColumnPruner and \<^verbatim>\<open>transform\<close> as a whole (pipe.py, lines 79-275)\<close>

text \<open>Lines 80 to 263: the table is rewritten step by step; the instance is only read.\<close>

definition transform_table :: "lib \<Rightarrow> pipeline \<Rightarrow> dataframe \<Rightarrow> error + dataframe" where
  "transform_table L p df =
     ebind (coerced L df) (\<lambda>d1.
     ebind (filtered_table L p d1) (\<lambda>d3.
     ebind (hierarchical_imputer L p d3) (\<lambda>d4.
     ebind (loan_multi_hot L p d4) (\<lambda>d5.
       categorical_encoder p d5))))"

text \<open>Lines 265 to 271: the names of the generated columns are appended to the instance's
  own \<^verbatim>\<open>cols_to_drop\<close>.\<close>

definition generated_cols :: "pipeline \<Rightarrow> string list" where
  "generated_cols p =
     concat (map (\<lambda>col. [col @ ''_median'', col @ ''_mad'', col @ ''_abs_dev'']) (numeric_cols p))
     @ map (\<lambda>col. col @ ''_mode'') (cat_cols p)"

definition extend_drop_list :: "pipeline \<Rightarrow> pipeline" where
  "extend_drop_list p = p\<lparr>cols_to_drop := cols_to_drop p @ generated_cols p\<rparr>"

text \<open>\<^verbatim>\<open>transform\<close> returns the table, or raises, and leaves the instance in a new state.\<close>

definition transform :: "lib \<Rightarrow> dataframe \<Rightarrow> pipeline \<Rightarrow> (error + dataframe) \<times> pipeline" where
  "transform L df p =
     (case transform_table L p df of
        Inl e \<Rightarrow> (Inl e, p)
      | Inr df_new \<Rightarrow>
          let p' = extend_drop_list p in (drop_columns (cols_to_drop p') df_new, p'))"

definition fit_transform :: "lib \<Rightarrow> dataframe \<Rightarrow> pipeline \<Rightarrow> (error + dataframe) \<times> pipeline" where
  "fit_transform L df p =
     (case fit L df p of
        (Some e, p') \<Rightarrow> (Inl e, p')
      | (None, p') \<Rightarrow> transform L df p')"

subsection \<open>The front end (app.py, lines 25-28)\<close>

text \<open>
  \<^verbatim>\<open>if "Credit_Score" in input_df.columns: input_df.drop("Credit_Score")\<close>.
  \<^verbatim>\<open>DataFrame.drop\<close> returns a new frame and the statement does not bind it:
  \<^verbatim>\<open>input_df\<close> is what it was when \<^verbatim>\<open>pipeline.transform(input_df)\<close> is called.
\<close>

definition app_pipeline_input :: "dataframe \<Rightarrow> error + dataframe" where
  "app_pipeline_input input_df =
     (if ''Credit_Score'' \<in> set (columns input_df)
      then ebind (drop_columns [''Credit_Score''] input_df) (\<lambda>dropped. Inr input_df)
      else Inr input_df)"

definition app_features :: "lib \<Rightarrow> pipeline \<Rightarrow> dataframe \<Rightarrow> (error + dataframe) \<times> pipeline" where
  "app_features L pipeline input_df =
     (case app_pipeline_input input_df of
        Inl e \<Rightarrow> (Inl e, pipeline)
      | Inr d \<Rightarrow> transform L d pipeline)"

subsection \<open>The per-customer statistics, row by row\<close>

text \<open>
  What the claims call the group's median and the group's MAD of a numeric field, written
  on the column \<open>xs\<close> and the customer identifiers \<open>ks\<close> of the table that
  GroupStatistics reads: for every row, the median of the non-null values of the rows with
  the same identifier, and the median of their non-null absolute deviations from it.
\<close>

definition group_median :: "val option list \<Rightarrow> rat option list \<Rightarrow> rat option list" where
  "group_median ks xs = joined (\<lambda>k. median (drop_nulls (group_vals ks xs k))) ks"

definition abs_dev :: "rat option list \<Rightarrow> rat option list \<Rightarrow> rat option list" where
  "abs_dev xs ms = map (map_option abs) (map2 (lift2 (-)) xs ms)"

definition group_mad :: "val option list \<Rightarrow> rat option list \<Rightarrow> rat option list" where
  "group_mad ks xs = group_median ks (abs_dev xs (group_median ks xs))"

text \<open>The test of the filter on one value, its group's median and its group's MAD.\<close>

definition is_outlier :: "rat option \<Rightarrow> rat option \<Rightarrow> rat option \<Rightarrow> bool" where
  "is_outlier v m d =
     (case v of None \<Rightarrow> False | Some x \<Rightarrow>
      case m of None \<Rightarrow> False | Some mm \<Rightarrow>
      case d of None \<Rightarrow> False | Some dd \<Rightarrow> x < mm - 3 * dd \<or> x > mm + 3 * dd)"

text \<open>The names the pipeline gives to its statistic columns are not columns of the table.\<close>

definition stat_names :: "pipeline \<Rightarrow> string list" where
  "stat_names p =
     concat (map (\<lambda>col. [col @ ''_median'', col @ ''_abs_dev'', col @ ''_mad'']) (numeric_cols p))"

definition fresh_stats :: "pipeline \<Rightarrow> dataframe \<Rightarrow> bool" where
  "fresh_stats p df = list_all (\<lambda>n. n \<notin> set (columns df)) (stat_names p)"

definition mode_names :: "pipeline \<Rightarrow> string list" where
  "mode_names p = map (\<lambda>col. col @ ''_mode'') (cat_cols p)"

definition fresh_modes :: "pipeline \<Rightarrow> dataframe \<Rightarrow> bool" where
  "fresh_modes p df = list_all (\<lambda>n. n \<notin> set (columns df)) (mode_names p)"

text \<open>What the two steps of TextNormalizer make of one value of a \<open>String\<close> column.\<close>

definition normalized :: "string option \<Rightarrow> string option" where
  "normalized v = Option.bind v (\<lambda>s. replace_null sentinels (strip_chars ''_'' s))"

text \<open>The expression of one step of the two loops over the numeric fields, read off the
  table: the step writes its value to one column.\<close>

definition abs_dev_expr :: "string \<Rightarrow> dataframe \<Rightarrow> error + series" where
  "abs_dev_expr col df =
     ebind (get_column col df) (\<lambda>x.
     ebind (get_column (col @ ''_median'') df) (\<lambda>m.
     ebind (arith_op (-) (-) x m) abs_s))"

definition outlier_col :: "string \<Rightarrow> dataframe \<Rightarrow> error + series" where
  "outlier_col col df =
     ebind (get_column col df) (\<lambda>x.
     ebind (get_column (col @ ''_median'') df) (\<lambda>m.
     ebind (get_column (col @ ''_mad'') df) (\<lambda>d. outlier_expr x m d)))"

subsection \<open>Sample data\<close>

text \<open>A stand-in for the library on the samples: unsigned digit strings read as floats,
  \<^verbatim>\<open>unique()\<close> in first-seen order, the first-seen mode, no regular expressions beyond
  the literal ones.\<close>

definition sample_lib :: lib where
  "sample_lib =
     \<lparr> str_to_f64 = (\<lambda>s. if all_digits (py s) then Some (of_int (int_of_digits (py s))) else None),
       unique_order = (\<lambda>vs. rev (remdups (rev vs))),
       mode_choice = (\<lambda>ms. 0),
       regex_search = (\<lambda>p. None) \<rparr>"

text \<open>A table with every column the pipeline reads.  The customer identifiers, the ages,
  the outstanding debts and the loan texts are given; the other columns are constant.\<close>

definition sample_table ::
  "string option list \<Rightarrow> rat option list \<Rightarrow> rat option list \<Rightarrow> string option list \<Rightarrow> dataframe" where
  "sample_table ids ages debts loans =
     (let n = length ids in
      [(''ID'', I64S (map (\<lambda>i. Some (int i)) [0..<n])),
       (''Customer_ID'', StrS ids),
       (''Month'', StrS (replicate n (Some ''January''))),
       (''Name'', StrS (replicate n (Some ''Ann''))),
       (''Age'', F64S ages),
       (''SSN'', StrS (replicate n (Some ''821-00-0265''))),
       (''Occupation'', StrS (replicate n (Some ''Teacher''))),
       (''Annual_Income'', F64S (replicate n (Some 24000))),
       (''Monthly_Inhand_Salary'', F64S (replicate n (Some 2000))),
       (''Num_of_Loan'', I64S (replicate n (Some 2))),
       (''Type_of_Loan'', StrS loans),
       (''Num_of_Delayed_Payment'', I64S (replicate n (Some 3))),
       (''Changed_Credit_Limit'', F64S (replicate n (Some 11))),
       (''Outstanding_Debt'', F64S debts),
       (''Amount_invested_monthly'', F64S (replicate n (Some 80))),
       (''Monthly_Balance'', F64S (replicate n (Some 300))),
       (''Credit_History_Age'', StrS (replicate n (Some ''3 Years and 7 Months''))),
       (''Credit_Mix'', StrS (replicate n (Some ''Good''))),
       (''Payment_of_Min_Amount'', StrS (replicate n (Some ''No'')))])"

definition sample_pipeline :: pipeline where
  "sample_pipeline =
     init [''Age'', ''Outstanding_Debt''] [''Occupation'']
          [''Auto Loan'', ''Credit-Builder Loan'', ''Personal Loan''] None"

text \<open>One customer, four records; the debts have median 1 and MAD 0.\<close>

definition zero_mad_table :: dataframe where
  "zero_mad_table =
     sample_table (replicate 4 (Some ''CUS_1'')) (replicate 4 (Some 30))
       [Some 1, Some 1, Some 1, Some 100] (replicate 4 None)"

text \<open>One customer, five records; one debt is far out and one is missing.\<close>

definition skewed_table :: dataframe where
  "skewed_table =
     sample_table (replicate 5 (Some ''CUS_1'')) (replicate 5 (Some 30))
       [Some 10, Some 20, Some 30, Some 1000, None] (replicate 5 None)"

text \<open>Three records whose customer identifiers are placeholders; the second has no age
  and no debt, the third no occupation.\<close>

definition null_id_table :: dataframe where
  "null_id_table =
     with_column ''Occupation'' (StrS [Some ''Teacher'', Some ''Teacher'', None])
       (sample_table [Some ''_'', Some ''!@9#%8__'', Some ''__''] [Some 30, None, Some 30]
          [Some 20, None, Some 20] [None, None, None])"

text \<open>Two records of one customer, with the ages 150 and 25.\<close>

definition implausible_age_table :: dataframe where
  "implausible_age_table =
     sample_table [Some ''CUS_1'', Some ''CUS_1''] [Some 150, Some 25] [Some 10, Some 20]
       [None, None]"

text \<open>Two customers; the first holds two loans, the second none.\<close>

definition loan_table :: dataframe where
  "loan_table =
     sample_table [Some ''CUS_1'', Some ''CUS_2''] [Some 30, Some 40] [Some 10, Some 20]
       [Some ''Auto Loan, and Credit-Builder Loan'', None]"

text \<open>A table that is already clean: two records of one customer, no null, no negative
  value, every value equal to its group's median.\<close>

definition clean_table :: dataframe where
  "clean_table =
     sample_table [Some ''CUS_1'', Some ''CUS_1''] [Some 30, Some 30] [Some 20, Some 20]
       [Some ''Auto Loan'', Some ''Auto Loan'']"

text \<open>A library that lists the distinct values at their last occurrence, a training table
  with one categorical column, and an instance that auto-encodes it.\<close>

definition last_seen_lib :: lib where
  "last_seen_lib = sample_lib\<lparr>unique_order := remdups\<rparr>"

definition occupations_table :: dataframe where
  "occupations_table =
     [(''Occupation'', StrS [Some ''Teacher'', Some ''Lawyer'', None, Some ''Teacher''])]"

definition occupation_pipeline :: pipeline where
  "occupation_pipeline = init [] [] [] (Some [''Occupation''])"

text \<open>The expression of one step of the auto-encode loop, read off the table.\<close>

definition auto_encode_col :: "string \<times> (val \<times> int) list \<Rightarrow> dataframe \<Rightarrow> error + series" where
  "auto_encode_col e df = ebind (get_column (fst e) df) (\<lambda>s. Inr (auto_encode_expr (snd e) s))"

section \<open>Properties\<close>

subsection \<open>The error monad\<close>

lemma ebind_Inl [simp]: "ebind (Inl e) f = Inl e"
  by (simp add: ebind_def)

lemma ebind_Inr [simp]: "ebind (Inr x) f = f x"
  by (simp add: ebind_def)

lemma ebind_eq_Inr: "ebind m f = Inr y \<longleftrightarrow> (\<exists>x. m = Inr x \<and> f x = Inr y)"
  by (cases m) simp_all

subsection \<open>The credit-history parse\<close>

lemma decimal_value_ascii: "d < 10 \<Longrightarrow> decimal_value (48 + int d) = Some (int d)"
  by (simp add: decimal_value_def decimal_zeros_def)

lemma is_digit_ascii: "d < 10 \<Longrightarrow> is_digit (48 + int d)"
  by (simp add: is_digit_def decimal_value_ascii)

lemma digit_val_ascii: "d < 10 \<Longrightarrow> digit_val (48 + int d) = int d"
  by (simp add: digit_val_def decimal_value_ascii)

lemma all_digits_decimal: "all_digits (decimal n)"
proof (induction n rule: decimal.induct)
  case (1 n)
  show ?case
  proof (cases "n < 10")
    case True
    then show ?thesis
      by (subst decimal.simps) (simp add: all_digits_def is_digit_ascii)
  next
    case False
    with 1 have "all_digits (decimal (n div 10))" by simp
    moreover have "is_digit (48 + int (n mod 10))" by (rule is_digit_ascii) simp
    ultimately show ?thesis using False
      by (subst decimal.simps) (simp add: all_digits_def)
  qed
qed

lemma int_of_digits_snoc: "int_of_digits (ds @ [c]) = 10 * int_of_digits ds + digit_val c"
  by (simp add: int_of_digits_def)

lemma int_of_digits_decimal: "int_of_digits (decimal n) = int n"
proof (induction n rule: decimal.induct)
  case (1 n)
  show ?case
  proof (cases "n < 10")
    case True
    then show ?thesis
      by (subst decimal.simps) (simp add: int_of_digits_def digit_val_ascii)
  next
    case False
    with 1 have "int_of_digits (decimal (n div 10)) = int (n div 10)" by simp
    moreover have "digit_val (48 + int (n mod 10)) = int (n mod 10)" by (rule digit_val_ascii) simp
    ultimately show ?thesis using False
      by (subst decimal.simps) (simp add: int_of_digits_snoc zdiv_int zmod_int)
  qed
qed

lemma not_digit_space: "\<not> is_digit 32"
  by (simp add: is_digit_def decimal_value_def decimal_zeros_def)

lemma py_years: "py '' Years and '' = 32 # py ''Years and ''"
  by (simp add: py_def)

lemma py_months: "py '' Months'' = 32 # py ''Months''"
  by (simp add: py_def)

lemma length_py: "length (py s) = length s"
  by (simp add: py_def)

lemma takeWhile_digits: "all_digits ds \<Longrightarrow> takeWhile is_digit (ds @ 32 # r) = ds"
  by (simp add: all_digits_def takeWhile_tail not_digit_space list_all_iff)

lemma dropWhile_digits:
  "all_digits ds \<Longrightarrow> dropWhile is_digit (ds @ 32 # r) = 32 # r"
  by (simp add: all_digits_def dropWhile_append2 not_digit_space list_all_iff)

text \<open>The greedy parse finds the groups of every match \<dots>\<close>

lemma pattern_match_complete:
  assumes "starts_with_history s ys ms rest"
  shows "pattern_match s = Some (ys, ms)"
proof -
  from assms have s: "s = ys @ py '' Years and '' @ ms @ py '' Months'' @ rest"
    and ys: "all_digits ys" and ms: "all_digits ms"
    by (auto simp: starts_with_history_def)
  have t1: "takeWhile is_digit s = ys"
    and d1: "dropWhile is_digit s = py '' Years and '' @ ms @ py '' Months'' @ rest"
    unfolding s py_years using takeWhile_digits [OF ys] dropWhile_digits [OF ys] by simp_all
  have t2: "takeWhile is_digit (ms @ py '' Months'' @ rest) = ms"
    and d2: "dropWhile is_digit (ms @ py '' Months'' @ rest) = py '' Months'' @ rest"
    unfolding py_months using takeWhile_digits [OF ms] dropWhile_digits [OF ms] by simp_all
  from ys ms have ne: "ys \<noteq> []" "ms \<noteq> []" by (simp_all add: all_digits_def)
  show ?thesis
    unfolding pattern_match_def Let_def t1 d1 using ne t2 d2 by (simp add: length_py)
qed

text \<open>\<dots> and finds nothing else.\<close>

lemma pattern_match_sound:
  assumes "pattern_match s = Some (ys, ms)"
  shows "\<exists>rest. starts_with_history s ys ms rest"
proof -
  define r1 where "r1 = dropWhile is_digit s"
  define r2 where "r2 = drop 11 r1"
  define r3 where "r3 = dropWhile is_digit r2"
  from assms have ys: "ys = takeWhile is_digit s" and ne1: "ys \<noteq> []"
    and l1: "take 11 r1 = py '' Years and ''"
    and ms: "ms = takeWhile is_digit r2" and ne2: "ms \<noteq> []"
    and l2: "take 7 r3 = py '' Months''"
    by (auto simp: pattern_match_def Let_def r1_def r2_def r3_def split: if_splits)
  have "s = ys @ r1" by (simp add: ys r1_def)
  also have "r1 = take 11 r1 @ r2" by (simp add: r2_def)
  also have "r2 = ms @ r3" by (simp add: ms r3_def)
  also have "r3 = take 7 r3 @ drop 7 r3" by simp
  finally have "s = ys @ py '' Years and '' @ ms @ py '' Months'' @ drop 7 r3"
    unfolding l1 l2 by simp
  moreover have "list_all is_digit ys" "list_all is_digit ms"
    unfolding ys ms list_all_iff by (auto dest: set_takeWhileD)
  ultimately show ?thesis using ne1 ne2 unfolding starts_with_history_def all_digits_def by blast
qed


text \<open>
  Claim C7, as the code has it.  \<^verbatim>\<open>history_to_months\<close> maps null to null.  On a string
  it returns a value exactly when the string \<^emph>\<open>starts with\<close> a match of the pattern: a
  non-empty run \<open>ys\<close> of decimal digits (of any script), \<open> Years and \<close>, a non-empty run
  \<open>ms\<close> of decimal digits, \<open> Months\<close>; the value is then \<open>12 * ys + ms\<close>, whatever text
  \<open>rest\<close> follows.  Every other string gives null.  So \<open>N Years and M Months\<close> gives
  \<open>12 * N + M\<close> for all naturals \<open>N\<close> and \<open>M\<close>, also when more text follows;
  \<open>3 Years and 7 Months\<close> gives 43, \<open>Years and Months\<close> gives null, and the same text
  with the Arabic-Indic digits three and seven gives 43.
\<close>

theorem history_to_months_spec:
  "history_to_months None = None
   \<and> (history_to_months (Some s) = Some v \<longleftrightarrow>
        (\<exists>ys ms rest. starts_with_history s ys ms rest
                       \<and> v = int_of_digits ys * 12 + int_of_digits ms))
   \<and> (history_to_months (Some s) = None \<longleftrightarrow>
        \<not> (\<exists>ys ms rest. starts_with_history s ys ms rest))
   \<and> history_to_months (Some (decimal n @ py '' Years and '' @ decimal m @ py '' Months'' @ rest))
        = Some (int n * 12 + int m)
   \<and> history_to_months (Some (py ''3 Years and 7 Months'')) = Some 43
   \<and> history_to_months (Some (py ''Years and Months'')) = None
   \<and> history_to_months (Some ([0x663] @ py '' Years and '' @ [0x667] @ py '' Months'')) = Some 43"
proof -
  have a: "history_to_months None = None" by (simp add: history_to_months_def)
  have fwd: "history_to_months (Some s) = Some (int_of_digits ys * 12 + int_of_digits ms)"
    if "starts_with_history s ys ms rest" for s ys ms rest
    using pattern_match_complete [OF that] by (simp add: history_to_months_def)
  have bwd: "\<exists>ys ms rest. starts_with_history s ys ms rest
                \<and> v = int_of_digits ys * 12 + int_of_digits ms"
    if "history_to_months (Some s) = Some v" for s v
  proof (cases "pattern_match s")
    case None
    with that show ?thesis by (simp add: history_to_months_def)
  next
    case (Some g)
    then have "pattern_match s = Some (fst g, snd g)" by simp
    from pattern_match_sound [OF this] obtain rest
      where "starts_with_history s (fst g) (snd g) rest" ..
    moreover from that Some have "v = int_of_digits (fst g) * 12 + int_of_digits (snd g)"
      by (simp add: history_to_months_def split: prod.splits)
    ultimately show ?thesis by blast
  qed
  have b: "history_to_months (Some s) = Some v \<longleftrightarrow>
        (\<exists>ys ms rest. starts_with_history s ys ms rest
                       \<and> v = int_of_digits ys * 12 + int_of_digits ms)"
    using fwd bwd by blast
  have c: "history_to_months (Some s) = None \<longleftrightarrow>
        \<not> (\<exists>ys ms rest. starts_with_history s ys ms rest)"
  proof
    assume n: "history_to_months (Some s) = None"
    show "\<not> (\<exists>ys ms rest. starts_with_history s ys ms rest)"
    proof
      assume "\<exists>ys ms rest. starts_with_history s ys ms rest"
      then obtain ys ms rest where "starts_with_history s ys ms rest" by blast
      from fwd [OF this] n show False by simp
    qed
  next
    assume n: "\<not> (\<exists>ys ms rest. starts_with_history s ys ms rest)"
    show "history_to_months (Some s) = None"
    proof (cases "history_to_months (Some s)")
      case None
      then show ?thesis .
    next
      case (Some v)
      from bwd [OF this] n show ?thesis by blast
    qed
  qed
  have "starts_with_history (decimal n @ py '' Years and '' @ decimal m @ py '' Months'' @ rest)
          (decimal n) (decimal m) rest"
    unfolding starts_with_history_def using all_digits_decimal by auto
  from fwd [OF this]
  have d: "history_to_months (Some (decimal n @ py '' Years and '' @ decimal m @ py '' Months'' @ rest))
             = Some (int n * 12 + int m)"
    by (simp add: int_of_digits_decimal)
  have e: "history_to_months (Some (py ''3 Years and 7 Months'')) = Some 43"
    by code_simp
  have f: "history_to_months (Some (py ''Years and Months'')) = None"
    by code_simp
  have g: "history_to_months (Some ([0x663] @ py '' Years and '' @ [0x667] @ py '' Months'')) = Some 43"
    by code_simp
  from a b c d e f g show ?thesis by blast
qed

text \<open>
  Claim C7 as stated fails on a string that is not of the form \<open>N Years and M Months\<close> but
  starts with it: \<^verbatim>\<open>re.match\<close> does not look at the end of the string, and the text
  \<open>3 Years and 7 Monthsxyz\<close> is parsed to 43, not to null.
\<close>

theorem partial_parse_counterexample:
  "history_to_months (Some (py ''3 Years and 7 Monthsxyz'')) = Some 43"
  by code_simp

theorem history_to_months_witness:
  "starts_with_history (py ''10 Years and 02 Months and more'') (py ''10'') (py ''02'')
     (py '' and more'')
   \<and> history_to_months (Some (py ''10 Years and 02 Months and more'')) = Some 122
   \<and> \<not> (\<exists>ys ms rest. starts_with_history (py ''3 Years 7 Months'') ys ms rest)
   \<and> history_to_months (Some (py ''3 Years 7 Months'')) = None"
proof -
  have m: "starts_with_history (py ''10 Years and 02 Months and more'') (py ''10'') (py ''02'')
     (py '' and more'')"
    by code_simp
  have v: "int_of_digits (py ''10'') * 12 + int_of_digits (py ''02'') = 122"
    by code_simp
  have n: "history_to_months (Some (py ''3 Years 7 Months'')) = None"
    by code_simp
  from history_to_months_spec [of "py ''10 Years and 02 Months and more''" 122] m v [symmetric]
  have "history_to_months (Some (py ''10 Years and 02 Months and more'')) = Some 122" by blast
  moreover from history_to_months_spec [of "py ''3 Years 7 Months''"] n
  have "\<not> (\<exists>ys ms rest. starts_with_history (py ''3 Years 7 Months'') ys ms rest)" by blast
  ultimately show ?thesis using m n by blast
qed

subsection \<open>The front end and the label column\<close>

text \<open>
  Claim C9 (the code departs from it).  Whatever table is uploaded, the table handed to
  \<^verbatim>\<open>pipeline.transform\<close> is the uploaded table itself: the result of the \<^verbatim>\<open>drop\<close>
  is thrown away, so a \<open>Credit_Score\<close> column that was there is still there.
\<close>

theorem app_pipeline_input_unchanged:
  "app_pipeline_input input_df = Inr input_df"
  by (simp add: app_pipeline_input_def drop_columns_def)

subsection \<open>Data frames, \<^verbatim>\<open>group_by\<close> and \<^verbatim>\<open>join\<close>\<close>

lemma get_column_Inr: "get_column n df = Inr s \<longleftrightarrow> map_of df n = Some s"
  by (simp add: get_column_def split: option.splits)

lemma get_column_Inl: "get_column n df = Inl e \<longleftrightarrow> map_of df n = None \<and> e = ColumnNotFound n"
  by (auto simp: get_column_def split: option.splits)

lemma in_columns: "n \<in> set (columns df) \<longleftrightarrow> map_of df n \<noteq> None"
  by (simp add: columns_def map_of_eq_None_iff)

lemma map_of_replace:
  "map_of (map (\<lambda>c. if fst c = n then (n, s) else c) df) m =
     (if m = n then map_option (\<lambda>x. s) (map_of df n) else map_of df m)"
  by (induction df) auto

lemma map_of_with_column: "map_of (with_column n s df) = (map_of df)(n \<mapsto> s)"
proof (cases "map_of df n")
  case None
  then have "n \<notin> set (columns df)" by (simp add: in_columns)
  with None show ?thesis
    by (auto simp: with_column_def fun_eq_iff map_add_def split: option.splits)
next
  case (Some x)
  then have "n \<in> set (columns df)" by (simp add: in_columns)
  with Some show ?thesis
    by (auto simp: with_column_def map_of_replace fun_eq_iff)
qed

lemma map_of_rev_distinct: "distinct (map fst xs) \<Longrightarrow> map_of (rev xs) = map_of xs"
proof (induction xs)
  case Nil
  then show ?case by simp
next
  case (Cons x xs)
  then have "map_of (rev xs) = map_of xs" and "map_of xs (fst x) = None"
    by (simp_all add: map_of_eq_None_iff)
  then show ?case
    by (cases x) (auto simp: fun_eq_iff map_add_def split: option.splits)
qed

lemma set_columns_with_column: "set (columns (with_column n s df)) = insert n (set (columns df))"
proof -
  have "dom (map_of (with_column n s df)) = insert n (dom (map_of df))"
    by (simp add: map_of_with_column)
  then show ?thesis by (simp add: dom_map_of_conv_image_fst columns_def)
qed

lemma map_of_fold_with_column:
  "map_of (fold (\<lambda>c. with_column (fst c) (snd c)) new df) = map_of df ++ map_of (rev new)"
  by (induction new arbitrary: df) (simp_all add: map_of_with_column)

lemma with_columns_Inr:
  assumes "with_columns new df = Inr d"
  shows "map_of d = map_of df ++ map_of new" and "distinct (map fst new)"
  using assms
  by (auto simp: with_columns_def map_of_fold_with_column map_of_rev_distinct split: if_splits)

lemma mapE_Inr: "mapE f xs = Inr ys \<longleftrightarrow> list_all2 (\<lambda>x y. f x = Inr y) xs ys"
proof (induction xs arbitrary: ys)
  case Nil
  then show ?case by auto
next
  case (Cons x xs)
  show ?case
    by (cases ys) (auto simp: ebind_eq_Inr Cons.IH)
qed

lemma foldE_invariant:
  assumes "foldE f xs s = Inr s'" and "P s"
    and "\<And>x a b. x \<in> set xs \<Longrightarrow> P a \<Longrightarrow> f x a = Inr b \<Longrightarrow> P b"
  shows "P s'"
  using assms
proof (induction xs arbitrary: s)
  case Nil
  then show ?case by simp
next
  case (Cons x xs)
  from Cons.prems(1) obtain a where a: "f x s = Inr a" "foldE f xs a = Inr s'"
    by (auto simp: ebind_eq_Inr)
  from Cons.prems(2,3) a(1) have "P a" by auto
  from Cons.IH [OF a(2) this] Cons.prems(3) show ?case by auto
qed

lemma first_index_Some:
  "x \<in> set xs \<Longrightarrow> \<exists>j. first_index xs x = Some j \<and> j < length xs \<and> xs ! j = x"
  by (induction xs) auto

lemma remdups_map_inj: "inj f \<Longrightarrow> remdups (map f xs) = map f (remdups xs)"
  by (induction xs) (auto simp: inj_image_mem_iff)

lemma cells_unique_s: "cells (unique_s s) = remdups (cells s)"
proof -
  have "inj VStr" "inj VFloat" "inj VInt"
    by (simp_all add: inj_def)
  then have "inj (map_option VStr)" "inj (map_option VFloat)" "inj (map_option VInt)"
    by (simp_all add: option.inj_map)
  then show ?thesis by (cases s) (simp_all add: remdups_map_inj)
qed

lemma gather_joined:
  "gather (map (\<lambda>k. case k of None \<Rightarrow> None | Some v \<Rightarrow> first_index (remdups ks) (Some v)) ks)
          (map f (remdups ks)) = joined f ks"
proof -
  have "(case (case k of None \<Rightarrow> None | Some v \<Rightarrow> first_index (remdups ks) (Some v)) of
           None \<Rightarrow> None
         | Some i \<Rightarrow> if i < length (map f (remdups ks)) then map f (remdups ks) ! i else None)
        = (case k of None \<Rightarrow> None | Some v \<Rightarrow> f (Some v))" if "k \<in> set ks" for k
  proof (cases k)
    case None
    then show ?thesis by simp
  next
    case (Some v)
    with that have "Some v \<in> set (remdups ks)" by simp
    from first_index_Some [OF this] Some show ?thesis by auto
  qed
  then show ?thesis
    unfolding gather_def joined_def map_map comp_def by (intro map_cong refl)
qed

lemma group_by_agg_Inr:
  assumes "group_by_agg L key aggs df = Inr g"
  shows "\<exists>kc outs. map_of df key = Some kc \<and> distinct (key # map (\<lambda>a. snd (snd a)) aggs)
     \<and> list_all2 (\<lambda>a out. \<exists>s. map_of df (fst a) = Some s
            \<and> eval_agg L (fst (snd a)) (cells kc) (remdups (cells kc)) s = Inr out) aggs outs
     \<and> g = (key, unique_s kc) # zip (map (\<lambda>a. snd (snd a)) aggs) outs"
proof -
  from assms obtain kc srcs outs where kc: "map_of df key = Some kc"
    and srcs: "list_all2 (\<lambda>a s. get_column (fst a) df = Inr s) aggs srcs"
    and d: "distinct (key # map (\<lambda>a. snd (snd a)) aggs)"
    and outs: "list_all2 (\<lambda>a out. eval_agg L (fst (snd (fst a))) (cells kc) (remdups (cells kc)) (snd a) = Inr out)
                 (zip aggs srcs) outs"
    and g: "g = (key, unique_s kc) # zip (map (\<lambda>a. snd (snd a)) aggs) outs"
    unfolding group_by_agg_def
    by (auto simp: ebind_eq_Inr get_column_Inr mapE_Inr Let_def split: if_splits)
  from srcs have l1: "length srcs = length aggs" by (simp add: list_all2_lengthD)
  from outs l1 have l2: "length outs = length aggs" by (auto dest: list_all2_lengthD)
  have "list_all2 (\<lambda>a out. \<exists>s. map_of df (fst a) = Some s
            \<and> eval_agg L (fst (snd a)) (cells kc) (remdups (cells kc)) s = Inr out) aggs outs"
    unfolding list_all2_conv_all_nth
  proof (intro conjI allI impI)
    show "length aggs = length outs" using l2 by simp
    fix i assume i: "i < length aggs"
    from srcs i have "get_column (fst (aggs ! i)) df = Inr (srcs ! i)"
      by (simp add: list_all2_conv_all_nth)
    moreover from outs i l1
    have "eval_agg L (fst (snd (aggs ! i))) (cells kc) (remdups (cells kc)) (srcs ! i) = Inr (outs ! i)"
      by (simp add: list_all2_conv_all_nth)
    ultimately show "\<exists>s. map_of df (fst (aggs ! i)) = Some s
            \<and> eval_agg L (fst (snd (aggs ! i))) (cells kc) (remdups (cells kc)) s = Inr (outs ! i)"
      by (auto simp: get_column_Inr)
  qed
  with kc d g show ?thesis by blast
qed

lemma join_left_Inr:
  assumes "join_left df right key suffix = Inr d"
  shows "\<exists>lk rk. map_of df key = Some lk \<and> map_of right key = Some rk
     \<and> d = df @ map (\<lambda>c. (if fst c \<in> set (columns df) then fst c @ suffix else fst c,
                           take_rows (match_rows lk rk) (snd c)))
                     (filter (\<lambda>c. fst c \<noteq> key) right)
     \<and> distinct (columns d)"
proof -
  from assms obtain lk rk where k: "map_of df key = Some lk" "map_of right key = Some rk"
    by (auto simp: join_left_def ebind_eq_Inr get_column_Inr)
  define new where "new = map (\<lambda>c. (if fst c \<in> set (columns df) then fst c @ suffix else fst c,
                           take_rows (match_rows lk rk) (snd c)))
                     (filter (\<lambda>c. fst c \<noteq> key) right)"
  from assms k have "(if distinct (columns df @ map fst new) then Inr (df @ new)
          else Inl (DuplicateError (first_dup (columns df @ map fst new)))) = Inr d"
    by (simp only: join_left_def get_column_def option.case ebind_Inr Let_def new_def)
  then have "d = df @ new" "distinct (columns df @ map fst new)"
    by (cases "distinct (columns df @ map fst new)";
        auto simp only: if_True if_False sum.inject sum.distinct)+
  then have "distinct (columns d)" by (simp add: columns_def)
  with k \<open>d = df @ new\<close> show ?thesis unfolding new_def by blast
qed

text \<open>A join keeps every column the left frame has.\<close>

lemma join_left_keeps:
  assumes "join_left df right key suffix = Inr d" and "map_of df n = Some s"
  shows "map_of d n = Some s"
proof -
  from join_left_Inr [OF assms(1)] obtain new where "d = df @ new" by blast
  with assms(2) show ?thesis by (simp add: map_add_def)
qed

lemma map_of_map_snd:
  "map_of (map (\<lambda>c. (fst c, f (snd c))) xs) n = map_option f (map_of xs n)"
  by (induction xs) auto

lemma fst_set_zip: "e \<in> set (zip xs ys) \<Longrightarrow> fst e \<in> set xs"
  by (cases e) (auto dest: set_zip_leftD)

lemma eval_agg_Median:
  "eval_agg L Median ks gks s = Inr out \<longleftrightarrow>
     \<not> is_str s \<and> out = F64S (map (\<lambda>k. median (drop_nulls (group_vals ks (nums s) k))) gks)"
  by (auto simp: eval_agg_def)

lemma median_join:
  assumes g: "group_by_agg L key (map (\<lambda>c. (src c, Median, alias c)) cols) df = Inr g"
    and j: "join_left df g key suffix = Inr d"
    and fresh: "\<And>c. c \<in> set cols \<Longrightarrow> map_of df (alias c) = None"
    and c: "c \<in> set cols"
  shows "\<exists>kc x. map_of df key = Some kc \<and> map_of df (src c) = Some x \<and> \<not> is_str x
           \<and> map_of d (alias c) =
               Some (F64S (joined (\<lambda>k. median (drop_nulls (group_vals (cells kc) (nums x) k)))
                             (cells kc)))"
proof -
  from group_by_agg_Inr [OF g] obtain kc outs where kc: "map_of df key = Some kc"
    and dist: "distinct (key # map alias cols)"
    and outs: "list_all2 (\<lambda>a out. \<exists>s. map_of df (fst a) = Some s
            \<and> eval_agg L (fst (snd a)) (cells kc) (remdups (cells kc)) s = Inr out)
               (map (\<lambda>c. (src c, Median, alias c)) cols) outs"
    and gdef: "g = (key, unique_s kc) # zip (map alias cols) outs"
    by (auto simp: comp_def)
  from outs have len: "length outs = length cols" by (auto dest: list_all2_lengthD)
  from dist have nk: "key \<notin> set (map alias cols)" and da: "distinct (map alias cols)" by auto
  have filt: "filter (\<lambda>c. fst c \<noteq> key) g = zip (map alias cols) outs"
    unfolding gdef using nk by (auto simp: filter_id_conv dest: set_zip_leftD)
  from join_left_Inr [OF j] kc gdef
  have ddef: "d = df @ map (\<lambda>c. (if fst c \<in> set (columns df) then fst c @ suffix else fst c,
                           take_rows (match_rows kc (unique_s kc)) (snd c)))
                     (zip (map alias cols) outs)"
    unfolding filt by auto
  have "map (\<lambda>c. (if fst c \<in> set (columns df) then fst c @ suffix else fst c,
                   take_rows (match_rows kc (unique_s kc)) (snd c))) (zip (map alias cols) outs)
        = map (\<lambda>c. (fst c, take_rows (match_rows kc (unique_s kc)) (snd c)))
            (zip (map alias cols) outs)"
  proof (rule map_cong [OF refl])
    fix e assume "e \<in> set (zip (map alias cols) outs)"
    then have "fst e \<in> alias ` set cols" by (auto dest: fst_set_zip)
    with fresh have "fst e \<notin> set (columns df)" by (auto simp: in_columns)
    then show "(if fst e \<in> set (columns df) then fst e @ suffix else fst e,
                take_rows (match_rows kc (unique_s kc)) (snd e))
               = (fst e, take_rows (match_rows kc (unique_s kc)) (snd e))" by simp
  qed
  with ddef have ddef': "d = df @ map (\<lambda>c. (fst c, take_rows (match_rows kc (unique_s kc)) (snd c)))
                     (zip (map alias cols) outs)" by simp
  from c obtain i where i: "i < length cols" "cols ! i = c" by (auto simp: in_set_conv_nth)
  from outs i obtain x where x: "map_of df (src c) = Some x"
    and ev: "eval_agg L Median (cells kc) (remdups (cells kc)) x = Inr (outs ! i)"
    by (auto simp: list_all2_conv_all_nth)
  from ev have ns: "\<not> is_str x"
    and out: "outs ! i = F64S (map (\<lambda>k. median (drop_nulls (group_vals (cells kc) (nums x) k)))
                            (remdups (cells kc)))"
    by (simp_all add: eval_agg_Median)
  have "map_of (zip (map alias cols) outs) (map alias cols ! i) = Some (outs ! i)"
    using da len i by (intro map_of_zip_nth) simp_all
  with i have z: "map_of (zip (map alias cols) outs) (alias c) = Some (outs ! i)" by simp
  have "map_of d (alias c) = Some (take_rows (match_rows kc (unique_s kc)) (outs ! i))"
    unfolding ddef' using fresh [OF c] z by (simp add: map_add_def map_of_map_snd)
  also have "take_rows (match_rows kc (unique_s kc)) (outs ! i)
     = F64S (joined (\<lambda>k. median (drop_nulls (group_vals (cells kc) (nums x) k))) (cells kc))"
    unfolding out match_rows_def cells_unique_s by (simp add: gather_joined)
  finally show ?thesis using kc x ns by blast
qed




lemma median_join_columns:
  assumes g: "group_by_agg L key (map (\<lambda>c. (src c, Median, alias c)) cols) df = Inr g"
    and j: "join_left df g key suffix = Inr d"
    and fresh: "\<And>c. c \<in> set cols \<Longrightarrow> map_of df (alias c) = None"
  shows "set (columns d) = set (columns df) \<union> alias ` set cols"
proof -
  from group_by_agg_Inr [OF g] obtain kc outs where kc: "map_of df key = Some kc"
    and dist: "distinct (key # map alias cols)"
    and outs: "list_all2 (\<lambda>a out. \<exists>s. map_of df (fst a) = Some s
            \<and> eval_agg L (fst (snd a)) (cells kc) (remdups (cells kc)) s = Inr out)
               (map (\<lambda>c. (src c, Median, alias c)) cols) outs"
    and gdef: "g = (key, unique_s kc) # zip (map alias cols) outs"
    by (auto simp: comp_def)
  from outs have len: "length outs = length cols" by (auto dest: list_all2_lengthD)
  from dist have nk: "key \<notin> set (map alias cols)" by auto
  have filt: "filter (\<lambda>c. fst c \<noteq> key) g = zip (map alias cols) outs"
    unfolding gdef using nk by (auto simp: filter_id_conv dest: set_zip_leftD)
  from join_left_Inr [OF j] kc gdef
  have ddef: "d = df @ map (\<lambda>c. (if fst c \<in> set (columns df) then fst c @ suffix else fst c,
                           take_rows (match_rows kc (unique_s kc)) (snd c)))
                     (zip (map alias cols) outs)"
    unfolding filt by auto
  have "map fst (map (\<lambda>c. (if fst c \<in> set (columns df) then fst c @ suffix else fst c,
                   take_rows (match_rows kc (unique_s kc)) (snd c))) (zip (map alias cols) outs))
        = map fst (zip (map alias cols) outs)"
    unfolding map_map
  proof (rule map_cong [OF refl])
    fix e assume "e \<in> set (zip (map alias cols) outs)"
    then have "fst e \<in> alias ` set cols" by (auto dest: fst_set_zip)
    with fresh have "fst e \<notin> set (columns df)" by (auto simp: in_columns)
    then show "(fst \<circ> (\<lambda>c. (if fst c \<in> set (columns df) then fst c @ suffix else fst c,
                take_rows (match_rows kc (unique_s kc)) (snd c)))) e = fst e" by simp
  qed
  also have "\<dots> = map alias cols" using len by simp
  finally show ?thesis unfolding ddef columns_def by (simp add: image_Un)
qed




text \<open>A loop of \<^verbatim>\<open>with_columns\<close> calls, each writing one column.\<close>

lemma foldE_with_column_keep:
  assumes "foldE (\<lambda>x a. ebind (e x a) (\<lambda>s. Inr (with_column (t x) s a))) xs d = Inr d'"
    and "n \<notin> t ` set xs"
  shows "map_of d' n = map_of d n"
  using assms
proof (induction xs arbitrary: d)
  case Nil
  then show ?case by simp
next
  case (Cons y ys)
  from Cons.prems(1) obtain s where s: "e y d = Inr s"
    and rest: "foldE (\<lambda>x a. ebind (e x a) (\<lambda>s. Inr (with_column (t x) s a))) ys (with_column (t y) s d) = Inr d'"
    by (auto simp: ebind_eq_Inr)
  from Cons.IH [OF rest] Cons.prems(2) show ?case by (simp add: map_of_with_column)
qed

lemma foldE_with_column_value:
  assumes "foldE (\<lambda>x a. ebind (e x a) (\<lambda>s. Inr (with_column (t x) s a))) xs d = Inr d'"
    and "distinct (map t xs)" and "x \<in> set xs"
    and "\<And>a. (\<And>n. n \<notin> t ` (set xs - {x}) \<Longrightarrow> map_of a n = map_of d n) \<Longrightarrow> e x a = e x d"
  shows "\<exists>s. e x d = Inr s \<and> map_of d' (t x) = Some s"
  using assms
proof (induction xs arbitrary: d)
  case Nil
  from Nil.prems(3) show ?case by simp
next
  case (Cons y ys)
  let ?f = "\<lambda>x a. ebind (e x a) (\<lambda>s. Inr (with_column (t x) s a))"
  from Cons.prems(1) obtain s where s: "e y d = Inr s"
    and rest: "foldE ?f ys (with_column (t y) s d) = Inr d'"
    by (auto simp: ebind_eq_Inr)
  show ?case
  proof (cases "x = y")
    case True
    from Cons.prems(2) have "t y \<notin> t ` set ys" by auto
    from foldE_with_column_keep [OF rest this] have "map_of d' (t y) = Some s"
      by (simp add: map_of_with_column)
    with s True show ?thesis by simp
  next
    case False
    with Cons.prems(3) have xin: "x \<in> set ys" by simp
    from Cons.prems(2) have dys: "distinct (map t ys)" by simp
    have base: "e x (with_column (t y) s d) = e x d"
    proof (rule Cons.prems(4))
      fix n assume "n \<notin> t ` (set (y # ys) - {x})"
      with False have "n \<noteq> t y" by auto
      then show "map_of (with_column (t y) s d) n = map_of d n" by (simp add: map_of_with_column)
    qed
    have stable: "e x a = e x (with_column (t y) s d)"
      if a: "\<And>n. n \<notin> t ` (set ys - {x}) \<Longrightarrow> map_of a n = map_of (with_column (t y) s d) n" for a
    proof -
      have "e x a = e x d"
      proof (rule Cons.prems(4))
        fix n assume n: "n \<notin> t ` (set (y # ys) - {x})"
        with False have "n \<noteq> t y" and "n \<notin> t ` (set ys - {x})" by auto
        with a show "map_of a n = map_of d n" by (simp add: map_of_with_column)
      qed
      with base show ?thesis by simp
    qed
    have "\<exists>r. e x (with_column (t y) s d) = Inr r \<and> map_of d' (t x) = Some r"
      by (rule Cons.IH [OF rest dys xin stable])
    then show ?thesis unfolding base .
  qed
qed

lemma append_ne_last:
  "s1 \<noteq> [] \<Longrightarrow> s2 \<noteq> [] \<Longrightarrow> last s1 \<noteq> last s2 \<Longrightarrow> a @ s1 \<noteq> b @ s2"
  by (metis last_appendR)

lemma suffix_ne:
  "a @ ''_median'' \<noteq> b @ ''_abs_dev''" "a @ ''_median'' \<noteq> b @ ''_mad''"
  "a @ ''_abs_dev'' \<noteq> b @ ''_mad''" "a @ ''_abs_dev'' \<noteq> b @ ''_median''"
  "a @ ''_mad'' \<noteq> b @ ''_median''" "a @ ''_mad'' \<noteq> b @ ''_abs_dev''"
  by (rule append_ne_last; simp)+

lemma fresh_statsD:
  assumes "fresh_stats p df" and "c \<in> set (numeric_cols p)"
  shows "map_of df (c @ ''_median'') = None" "map_of df (c @ ''_abs_dev'') = None"
    "map_of df (c @ ''_mad'') = None"
  using assms by (auto simp: fresh_stats_def stat_names_def list_all_iff in_columns)

lemma ebind_assoc: "ebind (ebind m f) g = ebind m (\<lambda>x. ebind (f x) g)"
  by (cases m) simp_all

lemma abs_dev_step_eq:
  "abs_dev_step = (\<lambda>col a. ebind (abs_dev_expr col a)
                     (\<lambda>s. Inr (with_column (col @ ''_abs_dev'') s a)))"
  by (simp add: fun_eq_iff abs_dev_step_def abs_dev_expr_def ebind_assoc)

lemma outlier_step_eq:
  "outlier_step = (\<lambda>col a. ebind (outlier_col col a) (\<lambda>s. Inr (with_column col s a)))"
  by (simp add: fun_eq_iff outlier_step_def outlier_col_def ebind_assoc)

lemma abs_dev_expr_F64:
  assumes "map_of a c = Some x" "\<not> is_str x" "map_of a (c @ ''_median'') = Some (F64S ms)"
  shows "abs_dev_expr c a = Inr (F64S (abs_dev (nums x) ms))"
  using assms
  by (cases x) (simp_all add: abs_dev_expr_def get_column_def arith_op_def abs_s_def abs_dev_def)

lemma group_median_length [simp]: "length (group_median ks xs) = length ks"
  by (simp add: group_median_def joined_def)

lemma group_medians_col:
  assumes run: "group_medians L p df = Inr d"
    and fresh: "fresh_stats p df"
  shows "distinct (numeric_cols p)"
    and "\<And>n s. map_of df n = Some s \<Longrightarrow> map_of d n = Some s"
    and "set (columns d) = set (columns df) \<union> (\<lambda>c. c @ ''_median'') ` set (numeric_cols p)"
    and "\<And>c. c \<in> set (numeric_cols p) \<Longrightarrow>
      \<exists>kc x. map_of df ''Customer_ID'' = Some kc \<and> map_of df c = Some x \<and> \<not> is_str x
        \<and> map_of d (c @ ''_median'') = Some (F64S (group_median (cells kc) (nums x)))"
proof -
  from run obtain g where
    g: "group_by_agg L ''Customer_ID'' (map (\<lambda>c. (c, Median, c @ ''_median'')) (numeric_cols p)) df = Inr g"
    and j: "join_left df g ''Customer_ID'' ''_right'' = Inr d"
    by (auto simp: group_medians_def ebind_eq_Inr)
  have fr: "map_of df (c @ ''_median'') = None" if "c \<in> set (numeric_cols p)" for c
    using fresh_statsD [OF fresh that] by simp
  from group_by_agg_Inr [OF g] have "distinct (map (\<lambda>c. c @ ''_median'') (numeric_cols p))"
    by (auto simp: comp_def)
  then show "distinct (numeric_cols p)" by (simp add: distinct_map)
  show "map_of d n = Some s" if "map_of df n = Some s" for n s
    using join_left_keeps [OF j that] .
  show "set (columns d) = set (columns df) \<union> (\<lambda>c. c @ ''_median'') ` set (numeric_cols p)"
    using median_join_columns [OF g j fr] by simp
  show "\<exists>kc x. map_of df ''Customer_ID'' = Some kc \<and> map_of df c = Some x \<and> \<not> is_str x
        \<and> map_of d (c @ ''_median'') = Some (F64S (group_median (cells kc) (nums x)))"
    if "c \<in> set (numeric_cols p)" for c
    using median_join [OF g j fr that] by (simp add: group_median_def)
qed

lemma abs_devs_col:
  assumes run: "foldE abs_dev_step cols d = Inr d'"
    and dist: "distinct cols"
  shows "\<And>n. n \<notin> (\<lambda>c. c @ ''_abs_dev'') ` set cols \<Longrightarrow> map_of d' n = map_of d n"
    and "\<And>c. c \<in> set cols \<Longrightarrow> c \<notin> (\<lambda>c. c @ ''_abs_dev'') ` set cols \<Longrightarrow>
          \<exists>s. abs_dev_expr c d = Inr s \<and> map_of d' (c @ ''_abs_dev'') = Some s"
proof -
  let ?t = "\<lambda>c. c @ ''_abs_dev''"
  from run have run': "foldE (\<lambda>x a. ebind (abs_dev_expr x a) (\<lambda>s. Inr (with_column (?t x) s a))) cols d = Inr d'"
    by (simp add: abs_dev_step_eq)
  show "map_of d' n = map_of d n" if "n \<notin> ?t ` set cols" for n
    using foldE_with_column_keep [OF run' that] .
  from dist have dt: "distinct (map ?t cols)" by (simp add: distinct_map inj_on_def)
  show "\<exists>s. abs_dev_expr c d = Inr s \<and> map_of d' (c @ ''_abs_dev'') = Some s"
    if c: "c \<in> set cols" and nt: "c \<notin> ?t ` set cols" for c
  proof (rule foldE_with_column_value [OF run' dt c])
    fix a assume a: "\<And>n. n \<notin> ?t ` (set cols - {c}) \<Longrightarrow> map_of a n = map_of d n"
    from nt have "c \<notin> ?t ` (set cols - {c})" by auto
    moreover have "c @ ''_median'' \<notin> ?t ` (set cols - {c})" by (auto simp: suffix_ne)
    ultimately have "map_of a c = map_of d c" "map_of a (c @ ''_median'') = map_of d (c @ ''_median'')"
      using a by blast+
    then show "abs_dev_expr c a = abs_dev_expr c d"
      by (simp add: abs_dev_expr_def get_column_def)
  qed
qed

lemma group_statistics_cols:
  assumes run: "group_statistics L p df = Inr d"
    and fresh: "fresh_stats p df"
  shows "distinct (numeric_cols p)"
    and "\<And>n s. map_of df n = Some s \<Longrightarrow> map_of d n = Some s"
    and "\<And>c. c \<in> set (numeric_cols p) \<Longrightarrow>
      \<exists>kc x. map_of df ''Customer_ID'' = Some kc \<and> map_of df c = Some x \<and> \<not> is_str x
        \<and> map_of d (c @ ''_median'') = Some (F64S (group_median (cells kc) (nums x)))
        \<and> map_of d (c @ ''_mad'') = Some (F64S (group_mad (cells kc) (nums x)))"
proof -
  let ?cols = "numeric_cols p"
  let ?ad = "\<lambda>c. c @ ''_abs_dev''"
  from run obtain d1 d2 where d1: "group_medians L p df = Inr d1"
    and d2: "foldE abs_dev_step ?cols d1 = Inr d2"
    and d3: "group_mads L p d2 = Inr d"
    by (auto simp: group_statistics_def ebind_eq_Inr)
  note m = group_medians_col [OF d1 fresh]
  show dist: "distinct ?cols" by (rule m(1))
  note a = abs_devs_col [OF d2 dist]
  from d3 obtain g where
    g: "group_by_agg L ''Customer_ID'' (map (\<lambda>c. (c @ ''_abs_dev'', Median, c @ ''_mad'')) ?cols) d2 = Inr g"
    and j: "join_left d2 g ''Customer_ID'' ''_right'' = Inr d"
    by (auto simp: group_mads_def ebind_eq_Inr)
  have not_ad: "n \<notin> ?ad ` set ?cols" if "map_of df n = Some s" for n s
  proof
    assume "n \<in> ?ad ` set ?cols"
    then obtain c where "c \<in> set ?cols" "n = c @ ''_abs_dev''" by auto
    with fresh_statsD(2) [OF fresh this(1)] that show False by simp
  qed
  have keep2: "map_of d2 n = Some s" if "map_of df n = Some s" for n s
    using a(1) [OF not_ad [OF that]] m(2) [OF that] by simp
  show "map_of d n = Some s" if "map_of df n = Some s" for n s
    using join_left_keeps [OF j keep2 [OF that]] .
  have fr2: "map_of d2 (c @ ''_mad'') = None" if c: "c \<in> set ?cols" for c
  proof -
    have "c @ ''_mad'' \<notin> set (columns d1)"
      unfolding m(3) using fresh_statsD(3) [OF fresh c] by (auto simp: in_columns suffix_ne)
    then have "map_of d1 (c @ ''_mad'') = None" by (simp add: in_columns)
    moreover have "c @ ''_mad'' \<notin> ?ad ` set ?cols" by (auto simp: suffix_ne)
    ultimately show ?thesis using a(1) by simp
  qed
  show "\<exists>kc x. map_of df ''Customer_ID'' = Some kc \<and> map_of df c = Some x \<and> \<not> is_str x
        \<and> map_of d (c @ ''_median'') = Some (F64S (group_median (cells kc) (nums x)))
        \<and> map_of d (c @ ''_mad'') = Some (F64S (group_mad (cells kc) (nums x)))"
    if c: "c \<in> set ?cols" for c
  proof -
    from m(4) [OF c] obtain kc x where kc: "map_of df ''Customer_ID'' = Some kc"
      and x: "map_of df c = Some x" and ns: "\<not> is_str x"
      and med1: "map_of d1 (c @ ''_median'') = Some (F64S (group_median (cells kc) (nums x)))"
      by blast
    have "c @ ''_median'' \<notin> ?ad ` set ?cols" by (auto simp: suffix_ne)
    with a(1) med1 have med2: "map_of d2 (c @ ''_median'') = Some (F64S (group_median (cells kc) (nums x)))"
      by simp
    from join_left_keeps [OF j med2]
    have med: "map_of d (c @ ''_median'') = Some (F64S (group_median (cells kc) (nums x)))" .
    from a(2) [OF c not_ad [OF x]] obtain s where s: "abs_dev_expr c d1 = Inr s"
      and ad: "map_of d2 (c @ ''_abs_dev'') = Some s" by blast
    from abs_dev_expr_F64 [OF m(2) [OF x] ns med1] s
    have sdef: "s = F64S (abs_dev (nums x) (group_median (cells kc) (nums x)))" by simp
    from median_join [OF g j fr2 c] ad keep2 [OF kc]
    have "map_of d (c @ ''_mad'') =
            Some (F64S (joined (\<lambda>k. median (drop_nulls (group_vals (cells kc) (nums s) k))) (cells kc)))"
      by auto
    then have "map_of d (c @ ''_mad'') = Some (F64S (group_mad (cells kc) (nums x)))"
      by (simp add: sdef group_mad_def group_median_def)
    with kc x ns med show ?thesis by blast
  qed
qed

lemma null_if_map: "null_if c (map (map_option f) xs) = map (map_option f) (null_if c xs)"
  by (simp add: null_if_def zip_map2 split_def)

lemma cells_null_where: "cells (null_where c x) = null_if c (cells x)"
  by (cases x) (simp_all add: null_if_map)

lemma nums_null_where: "nums (null_where c x) = null_if c (nums x)"
proof (cases x)
  case (StrS xs)
  then show ?thesis by (simp add: null_if_def zip_map2 split_def)
qed (simp_all add: null_if_map)

lemma length_null_if [simp]: "length (null_if c xs) = min (length c) (length xs)"
  by (simp add: null_if_def)

lemma nth_null_if:
  "i < length c \<Longrightarrow> i < length xs \<Longrightarrow> null_if c xs ! i = (if c ! i = Some True then None else xs ! i)"
  by (simp add: null_if_def)

lemma length_nums [simp]: "length (nums x) = length (cells x)"
  by (cases x) simp_all

lemma outlier_test:
  "or_k (lift2 (<) v (lift2 (-) m (map_option (\<lambda>x. of_int 3 * x) d)))
        (lift2 (>) v (lift2 (+) m (map_option (\<lambda>x. of_int 3 * x) d))) = Some True
   \<longleftrightarrow> is_outlier v m d"
  by (cases v; cases m; cases d) (auto simp: or_k_def lift2_def is_outlier_def)

lemma outlier_expr_rows:
  assumes ns: "\<not> is_str x" and run: "outlier_expr x (F64S ms) (F64S ds) = Inr y"
    and i: "i < length (cells y)"
  shows "i < length (cells x)" "i < length ms" "i < length ds"
    and "cells y ! i = (if is_outlier (nums x ! i) (ms ! i) (ds ! i) then None else cells x ! i)"
    and "nums y ! i = (if is_outlier (nums x ! i) (ms ! i) (ds ! i) then None else nums x ! i)"
proof -
  define d3 where "d3 = map (map_option (\<lambda>x. of_int 3 * x)) ds"
  define c where "c = map2 or_k (map2 (lift2 (<)) (nums x) (map2 (lift2 (-)) ms d3))
                               (map2 (lift2 (>)) (nums x) (map2 (lift2 (+)) ms d3))"
  from run ns have y: "y = null_where c x"
    by (simp add: outlier_expr_def mul_lit_def arith_op_def cmp_def c_def d3_def)
  have lc: "length c = min (length (cells x)) (min (length ms) (length ds))"
    by (simp add: c_def d3_def)
  from i show ix: "i < length (cells x)" and im: "i < length ms" and id: "i < length ds"
    by (simp_all add: y cells_null_where lc)
  with lc have ic: "i < length c" by simp
  have "c ! i = or_k (lift2 (<) (nums x ! i) (lift2 (-) (ms ! i) (map_option (\<lambda>x. of_int 3 * x) (ds ! i))))
        (lift2 (>) (nums x ! i) (lift2 (+) (ms ! i) (map_option (\<lambda>x. of_int 3 * x) (ds ! i))))"
    using ix im id by (simp add: c_def d3_def)
  then have ci: "c ! i = Some True \<longleftrightarrow> is_outlier (nums x ! i) (ms ! i) (ds ! i)"
    using outlier_test [of "nums x ! i" "ms ! i" "ds ! i"] by simp
  show "cells y ! i = (if is_outlier (nums x ! i) (ms ! i) (ds ! i) then None else cells x ! i)"
    using ic ix ci by (simp add: y cells_null_where nth_null_if)
  show "nums y ! i = (if is_outlier (nums x ! i) (ms ! i) (ds ! i) then None else nums x ! i)"
    using ic ix ci by (simp add: y nums_null_where nth_null_if)
qed

lemma robust_outlier_filter_cols:
  assumes run: "robust_outlier_filter p d = Inr d'" and dist: "distinct (numeric_cols p)"
  shows "\<And>n. n \<notin> set (numeric_cols p) \<Longrightarrow> map_of d' n = map_of d n"
    and "\<And>c. c \<in> set (numeric_cols p) \<Longrightarrow> c @ ''_median'' \<notin> set (numeric_cols p) \<Longrightarrow>
           c @ ''_mad'' \<notin> set (numeric_cols p) \<Longrightarrow>
           \<exists>s. outlier_col c d = Inr s \<and> map_of d' c = Some s"
proof -
  let ?cols = "numeric_cols p"
  from run have run': "foldE (\<lambda>x a. ebind (outlier_col x a) (\<lambda>s. Inr (with_column ((\<lambda>c. c) x) s a))) ?cols d = Inr d'"
    by (simp add: robust_outlier_filter_def outlier_step_eq)
  show "map_of d' n = map_of d n" if "n \<notin> set ?cols" for n
    using foldE_with_column_keep [OF run'] that by simp
  from dist have dt: "distinct (map (\<lambda>c. c) ?cols)" by simp
  show "\<exists>s. outlier_col c d = Inr s \<and> map_of d' c = Some s"
    if c: "c \<in> set ?cols" and nm: "c @ ''_median'' \<notin> set ?cols" and nd: "c @ ''_mad'' \<notin> set ?cols" for c
  proof (rule foldE_with_column_value [OF run' dt c])
    fix a assume a: "\<And>n. n \<notin> (\<lambda>c. c) ` (set ?cols - {c}) \<Longrightarrow> map_of a n = map_of d n"
    have "map_of a c = map_of d c" "map_of a (c @ ''_median'') = map_of d (c @ ''_median'')"
      "map_of a (c @ ''_mad'') = map_of d (c @ ''_mad'')"
      using nm nd by (auto intro!: a)
    then show "outlier_col c a = outlier_col c d"
      by (simp add: outlier_col_def get_column_def)
  qed
qed

lemma filtered_table_col:
  assumes run: "filtered_table L p df = Inr d'"
    and fresh: "fresh_stats p df" and c: "c \<in> set (numeric_cols p)"
  shows "\<exists>kc x y. map_of df ''Customer_ID'' = Some kc \<and> map_of df c = Some x \<and> \<not> is_str x
      \<and> map_of d' c = Some y
      \<and> outlier_expr x (F64S (group_median (cells kc) (nums x)))
                        (F64S (group_mad (cells kc) (nums x))) = Inr y
      \<and> map_of d' (c @ ''_median'') = Some (F64S (group_median (cells kc) (nums x)))
      \<and> map_of d' (c @ ''_mad'') = Some (F64S (group_mad (cells kc) (nums x)))"
proof -
  from run obtain d where d: "group_statistics L p df = Inr d"
    and f: "robust_outlier_filter p d = Inr d'"
    by (auto simp: filtered_table_def ebind_eq_Inr)
  note g = group_statistics_cols [OF d fresh]
  note r = robust_outlier_filter_cols [OF f g(1)]
  have incol: "map_of df n \<noteq> None" if "n \<in> set (numeric_cols p)" for n
    using g(3) [OF that] by auto
  have nm: "c @ ''_median'' \<notin> set (numeric_cols p)" and nd: "c @ ''_mad'' \<notin> set (numeric_cols p)"
    using incol [of "c @ ''_median''"] incol [of "c @ ''_mad''"] fresh_statsD [OF fresh c]
    by auto
  from g(3) [OF c] obtain kc x where kc: "map_of df ''Customer_ID'' = Some kc"
    and x: "map_of df c = Some x" and ns: "\<not> is_str x"
    and med: "map_of d (c @ ''_median'') = Some (F64S (group_median (cells kc) (nums x)))"
    and mad: "map_of d (c @ ''_mad'') = Some (F64S (group_mad (cells kc) (nums x)))"
    by blast
  from r(2) [OF c nm nd] obtain y where y: "outlier_col c d = Inr y" and y': "map_of d' c = Some y"
    by blast
  from y g(2) [OF x] med mad
  have "outlier_expr x (F64S (group_median (cells kc) (nums x)))
                        (F64S (group_mad (cells kc) (nums x))) = Inr y"
    by (simp add: outlier_col_def get_column_def)
  moreover from r(1) [OF nm] med
  have "map_of d' (c @ ''_median'') = Some (F64S (group_median (cells kc) (nums x)))" by simp
  moreover from r(1) [OF nd] mad
  have "map_of d' (c @ ''_mad'') = Some (F64S (group_mad (cells kc) (nums x)))" by simp
  ultimately show ?thesis using kc x ns y' by blast
qed

lemma foldE_join_keeps:
  assumes "foldE (\<lambda>g d. join_left d g key suffix) gs d = Inr d'" and "map_of d n = Some s"
  shows "map_of d' n = Some s"
  by (rule foldE_invariant [OF assms(1), where P = "\<lambda>a. map_of a n = Some s"])
     (auto simp: assms(2) intro: join_left_keeps)

lemma group_modes_keeps:
  assumes "group_modes L p d = Inr d'" and "map_of d n = Some s"
  shows "map_of d' n = Some s"
  using assms by (auto simp: group_modes_def ebind_eq_Inr intro: foldE_join_keeps)

lemma map_fst_coalesced:
  "list_all2 (\<lambda>col e. \<exists>x m s. P col x m s \<and> e = (col, s)) cols new \<Longrightarrow> map fst new = cols"
  by (induction cols new rule: list_all2_induct) auto

lemma coalesce_with_cols:
  assumes run: "coalesce_with suffix cols df = Inr d"
  shows "\<And>c. c \<in> set cols \<Longrightarrow>
          \<exists>x m s. map_of df c = Some x \<and> map_of df (c @ suffix) = Some m
                  \<and> coalesce2 x m = Inr s \<and> map_of d c = Some s"
    and "\<And>n. n \<notin> set cols \<Longrightarrow> map_of d n = map_of df n"
proof -
  from run obtain new where
    raw: "list_all2 (\<lambda>col e. ebind (get_column col df) (\<lambda>x.
              ebind (get_column (col @ suffix) df) (\<lambda>m.
              ebind (coalesce2 x m) (\<lambda>s. Inr (col, s)))) = Inr e) cols new"
    and w: "with_columns new df = Inr d"
    by (auto simp: coalesce_with_def ebind_eq_Inr [of "mapE f xs" for f xs] mapE_Inr)
  from raw have
    new: "list_all2 (\<lambda>col e. \<exists>x m s. (map_of df col = Some x \<and> map_of df (col @ suffix) = Some m
                        \<and> coalesce2 x m = Inr s) \<and> e = (col, s)) cols new"
    by (rule list_all2_mono) (auto simp: ebind_eq_Inr get_column_Inr)
  from map_fst_coalesced [OF new] have names: "map fst new = cols" .
  note wc = with_columns_Inr [OF w]
  show "\<exists>x m s. map_of df c = Some x \<and> map_of df (c @ suffix) = Some m
                  \<and> coalesce2 x m = Inr s \<and> map_of d c = Some s" if "c \<in> set cols" for c
  proof -
    from that obtain i where i: "i < length cols" "cols ! i = c" by (auto simp: in_set_conv_nth)
    with new obtain x m s where xm: "map_of df c = Some x" "map_of df (c @ suffix) = Some m"
      "coalesce2 x m = Inr s" and e: "new ! i = (c, s)"
      by (auto simp: list_all2_conv_all_nth)
    from new i have "i < length new" by (auto dest: list_all2_lengthD)
    with e have "(c, s) \<in> set new" by (metis nth_mem)
    with wc(2) have "map_of new c = Some s" by simp
    with wc(1) xm show ?thesis by (simp add: map_add_def)
  qed
  show "map_of d n = map_of df n" if "n \<notin> set cols" for n
  proof -
    from names have "fst ` set new = set cols" by (metis set_map)
    with that have "map_of new n = None" by (simp add: map_of_eq_None_iff)
    with wc(1) show ?thesis by (simp add: map_add_def)
  qed
qed

lemma coalesce2_F64:
  "\<not> is_str x \<Longrightarrow> coalesce2 x (F64S ms) = Inr (F64S (coalesce_opt (nums x) ms))"
  by (cases x) (simp_all add: coalesce2_def)

lemma numeric_imputation_col:
  assumes filt: "filtered_table L p df = Inr d2"
    and imp: "numeric_imputation L p d2 = Inr d4"
    and fresh: "fresh_stats p df" and c: "c \<in> set (numeric_cols p)"
  shows "\<exists>kc x y. map_of df ''Customer_ID'' = Some kc \<and> map_of df c = Some x \<and> \<not> is_str x
      \<and> map_of d2 c = Some y
      \<and> outlier_expr x (F64S (group_median (cells kc) (nums x)))
                        (F64S (group_mad (cells kc) (nums x))) = Inr y
      \<and> map_of d4 c = Some (F64S (coalesce_opt (nums y) (group_median (cells kc) (nums x))))"
proof -
  from filtered_table_col [OF filt fresh c] obtain kc x y where
    kc: "map_of df ''Customer_ID'' = Some kc" and x: "map_of df c = Some x" and ns: "\<not> is_str x"
    and y: "map_of d2 c = Some y"
    and oe: "outlier_expr x (F64S (group_median (cells kc) (nums x)))
                        (F64S (group_mad (cells kc) (nums x))) = Inr y"
    and med: "map_of d2 (c @ ''_median'') = Some (F64S (group_median (cells kc) (nums x)))"
    by blast
  from imp obtain d3 where d3: "group_modes L p d2 = Inr d3" and d4: "impute_numeric p d3 = Inr d4"
    by (auto simp: numeric_imputation_def ebind_eq_Inr)
  from oe ns have nsy: "\<not> is_str y"
    by (cases x) (auto simp: outlier_expr_def mul_lit_def arith_op_def cmp_def)
  from d4 have "coalesce_with ''_median'' (numeric_cols p) d3 = Inr d4"
    by (simp add: impute_numeric_def)
  from coalesce_with_cols(1) [OF this c] group_modes_keeps [OF d3 y] group_modes_keeps [OF d3 med]
  have "map_of d4 c = Some (F64S (coalesce_opt (nums y) (group_median (cells kc) (nums x))))"
    using nsy by (auto simp: coalesce2_F64)
  with kc x ns y oe show ?thesis by blast
qed

subsection \<open>RobustOutlierFilter and the band\<close>

lemma sort_eq_Nil: "sort xs = [] \<longleftrightarrow> xs = []"
  by (metis length_0_conv length_sort)

lemma median_eq_None: "median xs = None \<longleftrightarrow> xs = []"
proof (cases "xs = []")
  case True
  then show ?thesis by (simp add: median_def)
next
  case False
  then have "length (sort xs) \<noteq> 0" by simp
  then have "median xs \<noteq> None"
    unfolding median_def Let_def by (simp only: if_False split: if_split) blast
  with False show ?thesis by simp
qed

lemma in_group_vals:
  "v \<in> set (group_vals ks vs k) \<longleftrightarrow> (\<exists>j. j < length ks \<and> j < length vs \<and> ks ! j = k \<and> vs ! j = v)"
  by (auto simp: group_vals_def in_set_zip image_iff)

lemma nth_joined: "i < length ks \<Longrightarrow> joined f ks ! i = (case ks ! i of None \<Rightarrow> None | Some v \<Rightarrow> f (Some v))"
  by (simp add: joined_def)

lemma nth_group_median:
  "i < length ks \<Longrightarrow> group_median ks xs ! i =
     (case ks ! i of None \<Rightarrow> None | Some v \<Rightarrow> median (drop_nulls (group_vals ks xs (Some v))))"
  by (simp add: group_median_def nth_joined)

lemma drop_nulls_eq_Nil: "drop_nulls xs = [] \<longleftrightarrow> (\<forall>v \<in> set xs. v = None)"
  by (auto simp: drop_nulls_def filter_empty_conv)

lemma mad_needs_median:
  assumes i: "i < length ks" and mad: "group_mad ks xs ! i \<noteq> None"
  shows "group_median ks xs ! i \<noteq> None"
proof -
  let ?gm = "group_median ks xs"
  let ?ads = "abs_dev xs ?gm"
  from mad i obtain k where k: "ks ! i = Some k"
    and md: "median (drop_nulls (group_vals ks ?ads (Some k))) \<noteq> None"
    by (auto simp: group_mad_def nth_group_median split: option.splits)
  from md have ne: "drop_nulls (group_vals ks ?ads (Some k)) \<noteq> []"
    by (simp add: median_eq_None)
  from ne obtain j where j: "j < length ks" "j < length ?ads" "ks ! j = Some k" "?ads ! j \<noteq> None"
    by (auto simp: drop_nulls_eq_Nil in_group_vals)
  from j(2) have jx: "j < length xs" by (simp add: abs_dev_def)
  from j(4) j(1) jx have "?gm ! j \<noteq> None"
    by (auto simp: abs_dev_def lift2_def split: option.splits)
  moreover from j(1,3) i k have "?gm ! j = ?gm ! i" by (simp add: nth_group_median)
  ultimately show ?thesis by simp
qed

text \<open>
  Claim C3, as the code has it.  \<open>df\<close> is the table TypeCoercer left, \<open>d'\<close> the table after
  RobustOutlierFilter, \<open>x\<close> and \<open>y\<close> a declared numeric field before and after the filter.
  In every row: a retained value whose group has a MAD lies within three MADs of the group's
  median (which then exists); where the group has no MAD the value is what it was; and
  where the MAD is zero the band is the single point of the median: a value equal to the
  median is kept, any other value becomes null.
\<close>

theorem outlier_filter_band:
  assumes run: "filtered_table L p df = Inr d'"
    and fresh: "fresh_stats p df" and c: "c \<in> set (numeric_cols p)"
    and kc: "get_column ''Customer_ID'' df = Inr kc"
    and x: "get_column c df = Inr x" and y: "get_column c d' = Inr y"
    and i: "i < length (cells y)"
  shows "(\<forall>v dd. nums y ! i = Some v \<and> group_mad (cells kc) (nums x) ! i = Some dd \<longrightarrow>
            (\<exists>mm. group_median (cells kc) (nums x) ! i = Some mm
                  \<and> mm - 3 * dd \<le> v \<and> v \<le> mm + 3 * dd))
       \<and> (group_mad (cells kc) (nums x) ! i = None \<longrightarrow> cells y ! i = cells x ! i)
       \<and> (\<forall>mm. group_mad (cells kc) (nums x) ! i = Some 0
                \<and> group_median (cells kc) (nums x) ! i = Some mm \<longrightarrow>
              cells y ! i = (if nums x ! i = Some mm then cells x ! i else None))"
proof -
  let ?gm = "group_median (cells kc) (nums x)"
  let ?gd = "group_mad (cells kc) (nums x)"
  from filtered_table_col [OF run fresh c] kc x y
  have ns: "\<not> is_str x" and oe: "outlier_expr x (F64S ?gm) (F64S ?gd) = Inr y"
    by (auto simp: get_column_Inr)
  note r = outlier_expr_rows [OF ns oe i]
  from r(2) have ik: "i < length (cells kc)" by simp
  have a: "\<exists>mm. ?gm ! i = Some mm \<and> mm - 3 * dd \<le> v \<and> v \<le> mm + 3 * dd"
    if v: "nums y ! i = Some v" and dd: "?gd ! i = Some dd" for v dd
  proof -
    from mad_needs_median [OF ik] dd obtain mm where mm: "?gm ! i = Some mm" by auto
    from v r(5) have "\<not> is_outlier (nums x ! i) (?gm ! i) (?gd ! i)" and "nums x ! i = Some v"
      by (auto split: if_splits)
    with mm dd show ?thesis by (auto simp: is_outlier_def)
  qed
  have b: "cells y ! i = cells x ! i" if "?gd ! i = None"
    using r(4) that by (simp add: is_outlier_def split: option.splits)
  have nx: "nums x ! i = None \<Longrightarrow> cells x ! i = None"
    using r(1) ns by (cases x) simp_all
  have c': "cells y ! i = (if nums x ! i = Some mm then cells x ! i else None)"
    if "?gd ! i = Some 0" and "?gm ! i = Some mm" for mm
    using r(4) that nx by (cases "nums x ! i") (auto simp: is_outlier_def)
  from a b c' show ?thesis by blast
qed

lemma zero_mad_sample:
  "ebind (coerced sample_lib zero_mad_table) (\<lambda>df.
   ebind (filtered_table sample_lib sample_pipeline df) (\<lambda>d'.
     Inr (fresh_stats sample_pipeline df, get_column ''Customer_ID'' df,
          get_column ''Outstanding_Debt'' df, get_column ''Outstanding_Debt_median'' d',
          get_column ''Outstanding_Debt_mad'' d', get_column ''Outstanding_Debt'' d')))
   = Inr (True, Inr (StrS (replicate 4 (Some ''CUS_1''))),
          Inr (F64S [Some 1, Some 1, Some 1, Some 100]), Inr (F64S [Some 1, Some 1, Some 1, Some 1]),
          Inr (F64S [Some 0, Some 0, Some 0, Some 0]), Inr (F64S [Some 1, Some 1, Some 1, None]))"
  unfolding zero_mad_table_def by code_simp


text \<open>
  Claim C3 as stated fails: the four debts of one customer have MAD 0, and the filter still
  replaces the debt 100 by null.
\<close>

theorem zero_mad_filters_counterexample:
  "ebind (coerced sample_lib zero_mad_table) (\<lambda>df.
   ebind (filtered_table sample_lib sample_pipeline df) (\<lambda>d'.
     Inr (get_column ''Outstanding_Debt'' df, get_column ''Outstanding_Debt_mad'' d',
          get_column ''Outstanding_Debt'' d')))
   = Inr (Inr (F64S [Some 1, Some 1, Some 1, Some 100]),
          Inr (F64S [Some 0, Some 0, Some 0, Some 0]),
          Inr (F64S [Some 1, Some 1, Some 1, None]))"
  using zero_mad_sample by (auto simp: ebind_eq_Inr)

theorem outlier_filter_band_witness:
  "group_median (cells (StrS (replicate 4 (Some ''CUS_1'')))) [Some 1, Some 1, Some 1, Some 100] ! 3 = Some 1
   \<and> group_mad (cells (StrS (replicate 4 (Some ''CUS_1'')))) [Some 1, Some 1, Some 1, Some 100] ! 3 = Some 0
   \<and> cells (F64S [Some 1, Some 1, Some 1, None]) ! 3 = None
   \<and> nums (F64S [Some 1, Some 1, Some 1, None]) ! 0 = Some 1
   \<and> (1 :: rat) - 3 * 0 \<le> 1 \<and> (1 :: rat) \<le> 1 + 3 * 0"
proof -
  let ?kc = "StrS (replicate 4 (Some ''CUS_1''))"
  let ?x = "F64S [Some 1, Some 1, Some 1, Some 100]"
  let ?y = "F64S [Some 1, Some 1, Some 1, None]"
  from zero_mad_sample obtain df d' where
    run: "filtered_table sample_lib sample_pipeline df = Inr d'"
    and fresh: "fresh_stats sample_pipeline df"
    and kc: "get_column ''Customer_ID'' df = Inr ?kc"
    and x: "get_column ''Outstanding_Debt'' df = Inr ?x"
    and y: "get_column ''Outstanding_Debt'' d' = Inr ?y"
    by (auto simp: ebind_eq_Inr)
  have c: "''Outstanding_Debt'' \<in> set (numeric_cols sample_pipeline)"
    by (simp add: sample_pipeline_def init_def)
  have gm: "group_median (cells ?kc) (nums ?x) ! 3 = Some 1"
    and gd: "group_mad (cells ?kc) (nums ?x) ! 3 = Some 0"
    by code_simp+
  have i3: "3 < length (cells ?y)" and i0: "0 < length (cells ?y)" by simp_all
  from outlier_filter_band [OF run fresh c kc x y i3] gm gd
  have "cells ?y ! 3 = None" by simp
  moreover from outlier_filter_band [OF run fresh c kc x y i0]
  have "\<forall>v dd. nums ?y ! 0 = Some v \<and> group_mad (cells ?kc) (nums ?x) ! 0 = Some dd \<longrightarrow>
            (\<exists>mm. group_median (cells ?kc) (nums ?x) ! 0 = Some mm
                  \<and> mm - 3 * dd \<le> v \<and> v \<le> mm + 3 * dd)" by blast
  ultimately show ?thesis using gm gd by simp
qed

subsection \<open>The median that fills the numeric nulls\<close>

lemma nth_coalesce_opt:
  "i < length xs \<Longrightarrow> i < length ys \<Longrightarrow>
   coalesce_opt xs ys ! i = (case xs ! i of None \<Rightarrow> ys ! i | Some v \<Rightarrow> Some v)"
  by (simp add: coalesce_opt_def)

lemma length_coalesce_opt [simp]: "length (coalesce_opt xs ys) = min (length xs) (length ys)"
  by (simp add: coalesce_opt_def)

text \<open>
  Claim C1, as the code has it.  \<open>df\<close> is the table TypeCoercer left, \<open>d2\<close> the table after
  RobustOutlierFilter and \<open>d4\<close> the table after the numeric nulls are filled.  A declared
  numeric field is filled from the median column that GroupStatistics computed before the
  filter ran: a null of the filtered column \<open>y\<close>, in a row of customer \<open>k\<close>, becomes the
  median of the non-null values that the customer's rows have in the unfiltered column
  \<open>x\<close>.  No statistic is computed again after the filter.
\<close>

theorem imputes_prefilter_median:
  assumes filt: "filtered_table L p df = Inr d2"
    and imp: "numeric_imputation L p d2 = Inr d4"
    and fresh: "fresh_stats p df" and c: "c \<in> set (numeric_cols p)"
    and kc: "get_column ''Customer_ID'' df = Inr kc"
    and x: "get_column c df = Inr x" and y: "get_column c d2 = Inr y"
  shows "get_column c d4 = Inr (F64S (coalesce_opt (nums y) (group_median (cells kc) (nums x))))
     \<and> (\<forall>i k. i < length (cells y) \<and> nums y ! i = None \<and> cells kc ! i = Some k \<longrightarrow>
           coalesce_opt (nums y) (group_median (cells kc) (nums x)) ! i
             = median (drop_nulls (group_vals (cells kc) (nums x) (Some k))))"
proof -
  from numeric_imputation_col [OF filt imp fresh c] kc x y
  have ns: "\<not> is_str x"
    and oe: "outlier_expr x (F64S (group_median (cells kc) (nums x)))
                        (F64S (group_mad (cells kc) (nums x))) = Inr y"
    and z: "map_of d4 c = Some (F64S (coalesce_opt (nums y) (group_median (cells kc) (nums x))))"
    by (auto simp: get_column_Inr)
  have "coalesce_opt (nums y) (group_median (cells kc) (nums x)) ! i
             = median (drop_nulls (group_vals (cells kc) (nums x) (Some k)))"
    if i: "i < length (cells y)" and n: "nums y ! i = None" and k: "cells kc ! i = Some k" for i k
  proof -
    from outlier_expr_rows(2) [OF ns oe i] have ik: "i < length (cells kc)" by simp
    with i n k show ?thesis by (simp add: nth_coalesce_opt nth_group_median)
  qed
  with z show ?thesis by (simp add: get_column_Inr)
qed

lemma imputation_sample:
  "ebind (coerced sample_lib skewed_table) (\<lambda>df.
   ebind (filtered_table sample_lib sample_pipeline df) (\<lambda>d2.
   ebind (numeric_imputation sample_lib sample_pipeline d2) (\<lambda>d4.
     Inr (fresh_stats sample_pipeline df, get_column ''Customer_ID'' df,
          get_column ''Outstanding_Debt'' df, get_column ''Outstanding_Debt'' d2,
          get_column ''Outstanding_Debt'' d4))))
   = Inr (True, Inr (StrS (replicate 5 (Some ''CUS_1''))),
          Inr (F64S [Some 10, Some 20, Some 30, Some 1000, None]),
          Inr (F64S [Some 10, Some 20, Some 30, None, None]),
          Inr (F64S [Some 10, Some 20, Some 30, Some 25, Some 25]))"
  unfolding skewed_table_def by code_simp

lemma imputation_sample_output:
  "ebind (fst (transform sample_lib skewed_table sample_pipeline)) (get_column ''Outstanding_Debt'')
     = Inr (F64S [Some 10, Some 20, Some 30, Some 25, Some 25])"
  unfolding skewed_table_def by code_simp

text \<open>
  Claim C1 as stated fails: of the debts 10, 20, 30, 1000 and null of one customer, the
  filter removes 1000; the values that survive have median 20, the values before the filter
  median 25, and both nulls are filled with 25, in the imputer's table and in the output of
  \<^verbatim>\<open>transform\<close>.
\<close>

theorem imputes_postfilter_median_counterexample:
  "ebind (coerced sample_lib skewed_table) (\<lambda>df.
   ebind (filtered_table sample_lib sample_pipeline df) (\<lambda>d2.
   ebind (numeric_imputation sample_lib sample_pipeline d2) (\<lambda>d4.
     Inr (get_column ''Outstanding_Debt'' df, get_column ''Outstanding_Debt'' d2,
          get_column ''Outstanding_Debt'' d4))))
   = Inr (Inr (F64S [Some 10, Some 20, Some 30, Some 1000, None]),
          Inr (F64S [Some 10, Some 20, Some 30, None, None]),
          Inr (F64S [Some 10, Some 20, Some 30, Some 25, Some 25]))
   \<and> median (drop_nulls [Some 10, Some 20, Some 30, None, None]) = Some 20
   \<and> median (drop_nulls [Some 10, Some 20, Some 30, Some 1000, None]) = Some 25
   \<and> ebind (fst (transform sample_lib skewed_table sample_pipeline)) (get_column ''Outstanding_Debt'')
     = Inr (F64S [Some 10, Some 20, Some 30, Some 25, Some 25])"
proof -
  have "median (drop_nulls [Some 10, Some 20, Some 30, None, None]) = Some 20"
    "median (drop_nulls [Some 10, Some 20, Some 30, Some 1000, None]) = Some 25"
    by code_simp+
  moreover from imputation_sample have "ebind (coerced sample_lib skewed_table) (\<lambda>df.
   ebind (filtered_table sample_lib sample_pipeline df) (\<lambda>d2.
   ebind (numeric_imputation sample_lib sample_pipeline d2) (\<lambda>d4.
     Inr (get_column ''Outstanding_Debt'' df, get_column ''Outstanding_Debt'' d2,
          get_column ''Outstanding_Debt'' d4))))
   = Inr (Inr (F64S [Some 10, Some 20, Some 30, Some 1000, None]),
          Inr (F64S [Some 10, Some 20, Some 30, None, None]),
          Inr (F64S [Some 10, Some 20, Some 30, Some 25, Some 25]))"
    by (auto simp: ebind_eq_Inr)
  ultimately show ?thesis using imputation_sample_output by simp
qed

theorem imputes_prefilter_median_witness:
  "coalesce_opt (nums (F64S [Some 10, Some 20, Some 30, None, None]))
       (group_median (cells (StrS (replicate 5 (Some ''CUS_1''))))
          (nums (F64S [Some 10, Some 20, Some 30, Some 1000, None]))) ! 3
     = median (drop_nulls (group_vals (cells (StrS (replicate 5 (Some ''CUS_1''))))
          (nums (F64S [Some 10, Some 20, Some 30, Some 1000, None])) (Some (VStr ''CUS_1''))))
   \<and> median (drop_nulls (group_vals (cells (StrS (replicate 5 (Some ''CUS_1''))))
          (nums (F64S [Some 10, Some 20, Some 30, Some 1000, None])) (Some (VStr ''CUS_1'')))) = Some 25"
proof -
  let ?kc = "StrS (replicate 5 (Some ''CUS_1''))"
  let ?x = "F64S [Some 10, Some 20, Some 30, Some 1000, None]"
  let ?y = "F64S [Some 10, Some 20, Some 30, None, None]"
  from imputation_sample obtain df d2 d4 where
    filt: "filtered_table sample_lib sample_pipeline df = Inr d2"
    and imp: "numeric_imputation sample_lib sample_pipeline d2 = Inr d4"
    and fresh: "fresh_stats sample_pipeline df"
    and kc: "get_column ''Customer_ID'' df = Inr ?kc"
    and x: "get_column ''Outstanding_Debt'' df = Inr ?x"
    and y: "get_column ''Outstanding_Debt'' d2 = Inr ?y"
    by (auto simp: ebind_eq_Inr)
  have c: "''Outstanding_Debt'' \<in> set (numeric_cols sample_pipeline)"
    by (simp add: sample_pipeline_def init_def)
  have h: "3 < length (cells ?y) \<and> nums ?y ! 3 = None \<and> cells ?kc ! 3 = Some (VStr ''CUS_1'')"
    by code_simp
  have m: "median (drop_nulls (group_vals (cells ?kc) (nums ?x) (Some (VStr ''CUS_1'')))) = Some 25"
    by code_simp
  from imputes_prefilter_median [OF filt imp fresh c kc x y] h m show ?thesis by blast
qed

subsection \<open>Records without a customer identifier\<close>

lemma map_of_map_str_cols:
  "map_of (map_str_cols f df) n =
     map_option (\<lambda>s. case s of StrS xs \<Rightarrow> StrS (map (\<lambda>v. Option.bind v f) xs) | s \<Rightarrow> s) (map_of df n)"
  unfolding map_str_cols_def by (rule map_of_map_snd)

lemma text_normalizer_str:
  assumes "map_of t n = Some (StrS xs)"
  shows "map_of (text_normalizer t) n =
           Some (StrS (map (\<lambda>v. Option.bind v (\<lambda>s. replace_null sentinels (strip_chars ''_'' s))) xs))"
proof -
  have "Option.bind (Option.bind v (\<lambda>v. Some (strip_chars ''_'' v))) (replace_null sentinels)
        = Option.bind v (\<lambda>s. replace_null sentinels (strip_chars ''_'' s))" for v
    by (cases v) simp_all
  with assms show ?thesis
    by (simp add: text_normalizer_def map_of_map_str_cols comp_def)
qed

lemma cast_columns_keeps:
  assumes "cast_columns L d = Inr d'" and "n \<notin> set float_cols" and "n \<noteq> ''Credit_History_Age''"
  shows "map_of d' n = map_of d n"
proof -
  from assms(1) obtain new casts months where w: "with_columns new d = Inr d'"
    and new: "new = zip float_cols casts @ [(''Credit_History_Age'', months)]"
    by (auto simp: cast_columns_def ebind_eq_Inr)
  have "fst ` set new \<subseteq> set float_cols \<union> {''Credit_History_Age''}"
    unfolding new by (auto dest: set_zip_leftD)
  with assms(2,3) have "map_of new n = None" by (auto simp: map_of_eq_None_iff)
  with with_columns_Inr(1) [OF w] show ?thesis by (simp add: map_add_def)
qed

lemma map_of_scrub_negatives:
  "map_of (scrub_negatives df) n =
     map_option (\<lambda>s. case s of I64S xs \<Rightarrow> I64S (map null_negative xs)
                           | F64S xs \<Rightarrow> F64S (map null_negative xs) | s \<Rightarrow> s) (map_of df n)"
  unfolding scrub_negatives_def by (rule map_of_map_snd)

lemma type_coercer_keeps_str:
  assumes run: "type_coercer L d = Inr d'" and s: "map_of d n = Some (StrS xs)"
    and n: "n \<notin> set float_cols" "n \<noteq> ''Credit_History_Age''"
  shows "map_of d' n = Some (StrS xs)"
proof -
  from run obtain d1 d2 where d1: "cast_columns L d = Inr d1" and d2: "age_bounds d1 = Inr d2"
    and d': "d' = scrub_negatives d2"
    by (auto simp: type_coercer_def ebind_eq_Inr)
  from n(1) have age: "n \<noteq> ''Age''" by (auto simp: float_cols_def)
  from cast_columns_keeps [OF d1 n] s have "map_of d1 n = Some (StrS xs)" by simp
  with d2 age have "map_of d2 n = Some (StrS xs)"
    by (auto simp: age_bounds_def ebind_eq_Inr map_of_with_column)
  then show ?thesis by (simp add: d' map_of_scrub_negatives)
qed

lemma group_mad_null_key:
  "i < length ks \<Longrightarrow> ks ! i = None \<Longrightarrow> group_median ks xs ! i = None \<and> group_mad ks xs ! i = None"
  by (simp add: group_mad_def nth_group_median)

lemma suffix_mode_ne:
  "a @ ''_mode'' \<noteq> b @ ''_median''" "a @ ''_mode'' \<noteq> b @ ''_abs_dev''"
  "a @ ''_mode'' \<noteq> b @ ''_mad''"
  by (rule append_ne_last; simp)+

lemma group_statistics_fresh:
  assumes run: "group_statistics L p df = Inr d"
    and fresh: "fresh_stats p df"
    and n: "map_of df n = None" "n \<notin> set (stat_names p)"
  shows "map_of d n = None"
proof -
  let ?cols = "numeric_cols p"
  from run obtain d1 d2 where d1: "group_medians L p df = Inr d1"
    and d2: "foldE abs_dev_step ?cols d1 = Inr d2"
    and d3: "group_mads L p d2 = Inr d"
    by (auto simp: group_statistics_def ebind_eq_Inr)
  note m = group_medians_col [OF d1 fresh]
  note a = abs_devs_col [OF d2 m(1)]
  from d3 obtain g where
    g: "group_by_agg L ''Customer_ID'' (map (\<lambda>c. (c @ ''_abs_dev'', Median, c @ ''_mad'')) ?cols) d2 = Inr g"
    and j: "join_left d2 g ''Customer_ID'' ''_right'' = Inr d"
    by (auto simp: group_mads_def ebind_eq_Inr)
  from n(2) have nm: "n \<notin> (\<lambda>c. c @ ''_median'') ` set ?cols"
    and na: "n \<notin> (\<lambda>c. c @ ''_abs_dev'') ` set ?cols"
    and nd: "n \<notin> (\<lambda>c. c @ ''_mad'') ` set ?cols"
    by (auto simp: stat_names_def)
  from n(1) nm have "n \<notin> set (columns d1)" unfolding m(3) by (simp add: in_columns)
  then have "map_of d1 n = None" by (simp add: in_columns)
  with a(1) [OF na] have n2: "map_of d2 n = None" by simp
  have fr2: "map_of d2 (c @ ''_mad'') = None" if c: "c \<in> set ?cols" for c
  proof -
    have "c @ ''_mad'' \<notin> set (columns d1)"
      unfolding m(3) using fresh_statsD(3) [OF fresh c] by (auto simp: in_columns suffix_ne)
    then have "map_of d1 (c @ ''_mad'') = None" by (simp add: in_columns)
    moreover have "c @ ''_mad'' \<notin> (\<lambda>c. c @ ''_abs_dev'') ` set ?cols" by (auto simp: suffix_ne)
    ultimately show ?thesis using a(1) by simp
  qed
  from median_join_columns [OF g j fr2]
  have "set (columns d) = set (columns d2) \<union> (\<lambda>c. c @ ''_mad'') ` set ?cols" by simp
  with n2 nd have "n \<notin> set (columns d)" by (simp add: in_columns)
  then show ?thesis by (simp add: in_columns)
qed

lemma filtered_table_fresh:
  assumes run: "filtered_table L p df = Inr d2"
    and fresh: "fresh_stats p df"
    and n: "map_of df n = None" "n \<notin> set (stat_names p)"
  shows "map_of d2 n = None" and "n \<notin> set (numeric_cols p)"
proof -
  from run obtain d where d: "group_statistics L p df = Inr d"
    and f: "robust_outlier_filter p d = Inr d2"
    by (auto simp: filtered_table_def ebind_eq_Inr)
  note g = group_statistics_cols [OF d fresh]
  show nn: "n \<notin> set (numeric_cols p)"
  proof
    assume "n \<in> set (numeric_cols p)"
    from g(3) [OF this] n(1) show False by auto
  qed
  from robust_outlier_filter_cols(1) [OF f g(1) nn] group_statistics_fresh [OF d fresh n]
  show "map_of d2 n = None" by simp
qed

lemma filtered_table_keeps_str:
  assumes run: "filtered_table L p df = Inr d2"
    and fresh: "fresh_stats p df"
    and s: "map_of df n = Some (StrS xs)"
  shows "map_of d2 n = Some (StrS xs)"
proof -
  from run obtain d where d: "group_statistics L p df = Inr d"
    and f: "robust_outlier_filter p d = Inr d2"
    by (auto simp: filtered_table_def ebind_eq_Inr)
  note g = group_statistics_cols [OF d fresh]
  have nn: "n \<notin> set (numeric_cols p)"
  proof
    assume "n \<in> set (numeric_cols p)"
    from g(3) [OF this] s show False by auto
  qed
  from robust_outlier_filter_cols(1) [OF f g(1) nn] g(2) [OF s] show ?thesis by simp
qed

lemma length_take_rows: "length (cells (take_rows idx s)) = length idx"
  by (cases s) (simp_all add: gather_def)

lemma take_rows_null_key:
  "i < length (cells lk) \<Longrightarrow> cells lk ! i = None \<Longrightarrow>
   cells (take_rows (match_rows lk rk) s) ! i = None"
  by (cases s) (simp_all add: match_rows_def gather_def)

lemma join_left_new_cols:
  assumes j: "join_left d g key suffix = Inr d'" and k: "map_of d key = Some lk"
    and s: "map_of d' n = Some s"
  shows "map_of d n = Some s
     \<or> (length (cells s) = length (cells lk)
        \<and> (\<forall>i < length (cells lk). cells lk ! i = None \<longrightarrow> cells s ! i = None))"
proof (cases "map_of d n")
  case (Some a)
  from join_left_keeps [OF j Some] s show ?thesis using Some by simp
next
  case None
  from join_left_Inr [OF j] k obtain rk where
    d': "d' = d @ map (\<lambda>c. (if fst c \<in> set (columns d) then fst c @ suffix else fst c,
                           take_rows (match_rows lk rk) (snd c)))
                     (filter (\<lambda>c. fst c \<noteq> key) g)"
    by auto
  from s None have "map_of (map (\<lambda>c. (if fst c \<in> set (columns d) then fst c @ suffix else fst c,
                           take_rows (match_rows lk rk) (snd c)))
                     (filter (\<lambda>c. fst c \<noteq> key) g)) n = Some s"
    unfolding d' by (simp add: map_add_def)
  then obtain s0 where s0: "s = take_rows (match_rows lk rk) s0"
    by (auto dest!: map_of_SomeD)
  have "length (match_rows lk rk) = length (cells lk)" by (simp add: match_rows_def)
  then show ?thesis
    unfolding s0 by (simp add: length_take_rows take_rows_null_key)
qed

lemma foldE_join_new_cols:
  assumes f: "foldE (\<lambda>g d. join_left d g key suffix) gs d = Inr d'"
    and k: "map_of d key = Some lk"
  shows "\<forall>n s. map_of d' n = Some s \<longrightarrow> map_of d n = Some s
     \<or> (length (cells s) = length (cells lk)
        \<and> (\<forall>i < length (cells lk). cells lk ! i = None \<longrightarrow> cells s ! i = None))"
proof -
  let ?Q = "\<lambda>s. length (cells s) = length (cells lk)
        \<and> (\<forall>i < length (cells lk). cells lk ! i = None \<longrightarrow> cells s ! i = None)"
  let ?P = "\<lambda>a. map_of a key = Some lk
               \<and> (\<forall>n s. map_of a n = Some s \<longrightarrow> map_of d n = Some s \<or> ?Q s)"
  have "?P d'"
  proof (rule foldE_invariant [OF f, where P = ?P])
    show "?P d" using k by simp
  next
    fix g a b
    assume a: "?P a" and j: "join_left a g key suffix = Inr b"
    from a have ka: "map_of a key = Some lk" by simp
    have "map_of d n = Some s \<or> ?Q s" if "map_of b n = Some s" for n s
      using join_left_new_cols [OF j ka that] a by blast
    with join_left_keeps [OF j ka] show "?P b" by blast
  qed
  then show ?thesis by blast
qed

lemma group_modes_new_cols:
  assumes run: "group_modes L p d = Inr d'" and k: "map_of d ''Customer_ID'' = Some lk"
    and s: "map_of d' n = Some s" and n: "map_of d n = None"
  shows "length (cells s) = length (cells lk)"
    and "\<And>i. i < length (cells lk) \<Longrightarrow> cells lk ! i = None \<Longrightarrow> cells s ! i = None"
proof -
  from run obtain gs where
    "foldE (\<lambda>impute d. join_left d impute ''Customer_ID'' ''_mode'') gs d = Inr d'"
    by (auto simp: group_modes_def ebind_eq_Inr)
  from foldE_join_new_cols [OF this k]
  have "map_of d' n = Some s \<longrightarrow> map_of d n = Some s
     \<or> (length (cells s) = length (cells lk)
        \<and> (\<forall>i < length (cells lk). cells lk ! i = None \<longrightarrow> cells s ! i = None))"
    by blast
  with s n
  have "length (cells s) = length (cells lk)
        \<and> (\<forall>i < length (cells lk). cells lk ! i = None \<longrightarrow> cells s ! i = None)"
    by simp
  then show "length (cells s) = length (cells lk)"
    and "\<And>i. i < length (cells lk) \<Longrightarrow> cells lk ! i = None \<Longrightarrow> cells s ! i = None"
    by blast+
qed

lemma coalesce2_null_kept:
  assumes run: "coalesce2 x m = Inr s" and i: "i < length (cells s)"
    and m: "cells m ! i = None"
  shows "i < length (cells x)" "i < length (cells m)"
    "cells s ! i = None \<longleftrightarrow> cells x ! i = None"
    "is_str x \<Longrightarrow> cells s ! i = cells x ! i"
  using assms
  by (cases x; cases m;
      auto simp: coalesce2_def int_series_def nth_coalesce_opt split: if_splits option.splits)+

lemma hierarchical_imputer_stages:
  "hierarchical_imputer L p d2 = Inr d6 \<longleftrightarrow>
     (\<exists>d3 d4 d5. group_modes L p d2 = Inr d3 \<and> impute_numeric p d3 = Inr d4
        \<and> impute_categorical p d4 = Inr d5 \<and> secondary_fallbacks L d5 = Inr d6)"
  by (auto simp: hierarchical_imputer_def numeric_imputation_def ebind_eq_Inr)

lemma fresh_modesD:
  assumes "fresh_modes p df" and "c \<in> set (cat_cols p)"
  shows "map_of df (c @ ''_mode'') = None" "c @ ''_mode'' \<notin> set (stat_names p)"
  using assms
  by (auto simp: fresh_modes_def mode_names_def stat_names_def list_all_iff in_columns
      suffix_mode_ne)

lemma coerced_customer_id:
  assumes co: "coerced L t = Inr df"
    and ids: "get_column ''Customer_ID'' t = Inr (StrS ids)"
  shows "map_of df ''Customer_ID'' = Some (StrS (map normalized ids))"
proof -
  have n: "normalized = (\<lambda>v. Option.bind v (\<lambda>s. replace_null sentinels (strip_chars ''_'' s)))"
    by (simp add: fun_eq_iff normalized_def)
  from ids have "map_of (text_normalizer t) ''Customer_ID'' = Some (StrS (map normalized ids))"
    unfolding n by (simp add: get_column_Inr text_normalizer_str)
  with co show ?thesis
    unfolding coerced_def
    by (rule type_coercer_keeps_str) (simp_all add: float_cols_def)
qed

lemma null_id_numeric:
  assumes filt: "filtered_table L p df = Inr d2"
    and modes: "group_modes L p d2 = Inr d3"
    and impn: "impute_numeric p d3 = Inr d4"
    and fresh: "fresh_stats p df"
    and kc: "map_of df ''Customer_ID'' = Some (StrS (map f ids))"
    and c: "c \<in> set (numeric_cols p)"
  shows "\<exists>x m d y z.
           get_column c df = Inr x \<and> get_column (c @ ''_median'') d2 = Inr m
         \<and> get_column (c @ ''_mad'') d2 = Inr d \<and> get_column c d2 = Inr y
         \<and> get_column c d4 = Inr z
         \<and> (\<forall>i. i < length (cells z) \<and> f (ids ! i) = None \<longrightarrow>
               nums m ! i = None \<and> nums d ! i = None
             \<and> nums y ! i = nums x ! i \<and> nums z ! i = nums x ! i)"
proof -
  let ?ks = "cells (StrS (map f ids))"
  from modes impn have imp: "numeric_imputation L p d2 = Inr d4"
    by (simp add: numeric_imputation_def)
  from filtered_table_col [OF filt fresh c] kc obtain x y where
    x: "map_of df c = Some x" and ns: "\<not> is_str x" and y: "map_of d2 c = Some y"
    and oe: "outlier_expr x (F64S (group_median ?ks (nums x)))
                        (F64S (group_mad ?ks (nums x))) = Inr y"
    and med: "map_of d2 (c @ ''_median'') = Some (F64S (group_median ?ks (nums x)))"
    and mad: "map_of d2 (c @ ''_mad'') = Some (F64S (group_mad ?ks (nums x)))"
    by auto
  from numeric_imputation_col [OF filt imp fresh c] kc x y
  have z: "map_of d4 c = Some (F64S (coalesce_opt (nums y) (group_median ?ks (nums x))))"
    by auto
  let ?gm = "group_median ?ks (nums x)"
  let ?z = "F64S (coalesce_opt (nums y) ?gm)"
  have "nums (F64S ?gm) ! i = None \<and> nums (F64S (group_mad ?ks (nums x))) ! i = None
        \<and> nums y ! i = nums x ! i \<and> nums ?z ! i = nums x ! i"
    if i: "i < length (cells ?z)" and n: "f (ids ! i) = None" for i
  proof -
    from i have iy: "i < length (cells y)" and ik: "i < length ?ks" by simp_all
    from ik n have k: "?ks ! i = None" by simp
    note g = group_mad_null_key [OF ik k, of "nums x"]
    from outlier_expr_rows(5) [OF ns oe iy] g have "nums y ! i = nums x ! i"
      by (simp add: is_outlier_def split: option.splits)
    moreover from iy ik g have "nums ?z ! i = (case nums y ! i of None \<Rightarrow> None | Some v \<Rightarrow> Some v)"
      by (simp add: nth_coalesce_opt split: option.splits)
    ultimately have "nums ?z ! i = nums x ! i" by (simp split: option.splits)
    with g \<open>nums y ! i = nums x ! i\<close> show ?thesis by simp
  qed
  with x y med mad z show ?thesis unfolding get_column_Inr by blast
qed

lemma null_id_categorical:
  assumes filt: "filtered_table L p df = Inr d2"
    and modes: "group_modes L p d2 = Inr d3"
    and impn: "impute_numeric p d3 = Inr d4"
    and impc: "impute_categorical p d4 = Inr d5"
    and fresh: "fresh_stats p df" and freshm: "fresh_modes p df"
    and kc: "map_of df ''Customer_ID'' = Some (StrS (map f ids))"
    and c: "c \<in> set (cat_cols p)"
  shows "\<exists>u mo w.
           get_column c d4 = Inr u \<and> get_column (c @ ''_mode'') d4 = Inr mo
         \<and> get_column c d5 = Inr w
         \<and> (\<forall>i. i < length (cells w) \<and> f (ids ! i) = None \<longrightarrow>
               cells mo ! i = None \<and> (cells w ! i = None \<longleftrightarrow> cells u ! i = None)
             \<and> (is_str u \<longrightarrow> cells w ! i = cells u ! i))"
proof -
  note fm = fresh_modesD [OF freshm c]
  note f2 = filtered_table_fresh [OF filt fresh fm]
  note k2 = filtered_table_keeps_str [OF filt fresh kc]
  from impc have "coalesce_with ''_mode'' (cat_cols p) d4 = Inr d5"
    by (simp add: impute_categorical_def)
  from coalesce_with_cols(1) [OF this c] obtain u mo w where
    u: "map_of d4 c = Some u" and mo: "map_of d4 (c @ ''_mode'') = Some mo"
    and co: "coalesce2 u mo = Inr w" and w: "map_of d5 c = Some w"
    by blast
  from impn have "coalesce_with ''_median'' (numeric_cols p) d3 = Inr d4"
    by (simp add: impute_numeric_def)
  from coalesce_with_cols(2) [OF this f2(2)] mo
  have mo3: "map_of d3 (c @ ''_mode'') = Some mo" by simp
  note g = group_modes_new_cols [OF modes k2 mo3 f2(1)]
  have "cells mo ! i = None \<and> (cells w ! i = None \<longleftrightarrow> cells u ! i = None)
             \<and> (is_str u \<longrightarrow> cells w ! i = cells u ! i)"
    if i: "i < length (cells w)" and n: "f (ids ! i) = None" for i
  proof -
    have lt: "i < length (cells mo)"
    proof (rule ccontr)
      assume "\<not> i < length (cells mo)"
      with co i show False
        by (cases u; cases mo)
           (auto simp: coalesce2_def int_series_def split: if_splits option.splits)
    qed
    with g(1) have ik: "i < length (cells (StrS (map f ids)))" by simp
    with n have "cells (StrS (map f ids)) ! i = None" by simp
    from g(2) [OF ik this] have m: "cells mo ! i = None" .
    from coalesce2_null_kept(3,4) [OF co i m] m show ?thesis by blast
  qed
  with u mo w show ?thesis unfolding get_column_Inr by blast
qed

text \<open>
  Claim C10, as the code has it.  A \<open>String\<close> customer-identifier column is normalized like
  every string column: underscores are stripped from both ends, and what is then empty or
  the token \<open>!@9#%8\<close> becomes null.  \<^verbatim>\<open>group_by\<close> puts the null identifiers in one
  group, but the left joins on the identifier match no null key, so no statistic of a
  customer group reaches a record whose identifier is null.  \<open>df\<close> is the table after
  TypeCoercer, \<open>d2\<close> the table after RobustOutlierFilter, \<open>d3\<close> the table with the modes
  joined, \<open>d4\<close> and \<open>d5\<close> the tables after the fills of lines 188-198.  In every row with
  a null identifier:
  \<^item> for every declared numeric field, the table's \<open>_median\<close> and \<open>_mad\<close> columns are
    null, the filter leaves the value as it is, and the fill from the customer's median
    leaves it as it is, a null included;
  \<^item> for every declared categorical field, the joined \<open>_mode\<close> column is null and the
    fill from the customer's mode fills nothing: a null stays null, a string stays the
    string it is.

  The fallbacks of lines 200-220 do not use the customer identifier and are not part of
  this statement; on the sample below they fill the missing age of such a record with the
  median age of its occupation.
\<close>

theorem null_customer_id_rows:
  assumes co: "coerced L t = Inr df"
    and filt: "filtered_table L p df = Inr d2"
    and modes: "group_modes L p d2 = Inr d3"
    and impn: "impute_numeric p d3 = Inr d4"
    and impc: "impute_categorical p d4 = Inr d5"
    and fresh: "fresh_stats p df" and freshm: "fresh_modes p df"
    and ids: "get_column ''Customer_ID'' t = Inr (StrS ids)"
  shows "get_column ''Customer_ID'' df = Inr (StrS (map normalized ids))
     \<and> (\<forall>c \<in> set (numeric_cols p). \<exists>x m d y z.
           get_column c df = Inr x \<and> get_column (c @ ''_median'') d2 = Inr m
         \<and> get_column (c @ ''_mad'') d2 = Inr d \<and> get_column c d2 = Inr y
         \<and> get_column c d4 = Inr z
         \<and> (\<forall>i. i < length (cells z) \<and> normalized (ids ! i) = None \<longrightarrow>
               nums m ! i = None \<and> nums d ! i = None
             \<and> nums y ! i = nums x ! i \<and> nums z ! i = nums x ! i))
     \<and> (\<forall>c \<in> set (cat_cols p). \<exists>u mo w.
           get_column c d4 = Inr u \<and> get_column (c @ ''_mode'') d4 = Inr mo
         \<and> get_column c d5 = Inr w
         \<and> (\<forall>i. i < length (cells w) \<and> normalized (ids ! i) = None \<longrightarrow>
               cells mo ! i = None \<and> (cells w ! i = None \<longleftrightarrow> cells u ! i = None)
             \<and> (is_str u \<longrightarrow> cells w ! i = cells u ! i)))"
proof (intro conjI ballI)
  note kc = coerced_customer_id [OF co ids]
  from kc show "get_column ''Customer_ID'' df = Inr (StrS (map normalized ids))"
    by (simp add: get_column_Inr)
  show "\<exists>x m d y z.
           get_column c df = Inr x \<and> get_column (c @ ''_median'') d2 = Inr m
         \<and> get_column (c @ ''_mad'') d2 = Inr d \<and> get_column c d2 = Inr y
         \<and> get_column c d4 = Inr z
         \<and> (\<forall>i. i < length (cells z) \<and> normalized (ids ! i) = None \<longrightarrow>
               nums m ! i = None \<and> nums d ! i = None
             \<and> nums y ! i = nums x ! i \<and> nums z ! i = nums x ! i)"
    if "c \<in> set (numeric_cols p)" for c
    by (rule null_id_numeric [OF filt modes impn fresh kc that])
  show "\<exists>u mo w.
           get_column c d4 = Inr u \<and> get_column (c @ ''_mode'') d4 = Inr mo
         \<and> get_column c d5 = Inr w
         \<and> (\<forall>i. i < length (cells w) \<and> normalized (ids ! i) = None \<longrightarrow>
               cells mo ! i = None \<and> (cells w ! i = None \<longleftrightarrow> cells u ! i = None)
             \<and> (is_str u \<longrightarrow> cells w ! i = cells u ! i))"
    if "c \<in> set (cat_cols p)" for c
    by (rule null_id_categorical [OF filt modes impn impc fresh freshm kc that])
qed

lemma null_id_sample:
  "ebind (coerced sample_lib null_id_table) (\<lambda>df.
   ebind (filtered_table sample_lib sample_pipeline df) (\<lambda>d2.
   ebind (group_modes sample_lib sample_pipeline d2) (\<lambda>d3.
   ebind (impute_numeric sample_pipeline d3) (\<lambda>d4.
   ebind (impute_categorical sample_pipeline d4) (\<lambda>d5.
   ebind (secondary_fallbacks sample_lib d5) (\<lambda>d6.
     Inr (fresh_stats sample_pipeline df, fresh_modes sample_pipeline df,
          get_column ''Customer_ID'' null_id_table, get_column ''Customer_ID'' df,
          get_column ''Outstanding_Debt'' df, get_column ''Outstanding_Debt_median'' d2,
          get_column ''Outstanding_Debt_mad'' d2, get_column ''Outstanding_Debt'' d2,
          get_column ''Outstanding_Debt'' d4,
          get_column ''Occupation'' d4, get_column ''Occupation_mode'' d4,
          get_column ''Occupation'' d5, get_column ''Age'' d5, get_column ''Age'' d6)))))))
   = Inr (True, True, Inr (StrS [Some ''_'', Some ''!@9#%8__'', Some ''__'']),
      Inr (StrS [None, None, None]), Inr (F64S [Some 20, None, Some 20]),
      Inr (F64S [None, None, None]), Inr (F64S [None, None, None]),
      Inr (F64S [Some 20, None, Some 20]),
      Inr (F64S [Some 20, None, Some 20]),
      Inr (StrS [Some ''Teacher'', Some ''Teacher'', None]),
      Inr (StrS [None, None, None]),
      Inr (StrS [Some ''Teacher'', Some ''Teacher'', None]),
      Inr (F64S [Some 30, None, Some 30]),
      Inr (F64S [Some 30, Some 30, Some 30]))"
  unfolding null_id_table_def by code_simp

lemma null_id_sample_output:
  "ebind (fst (transform sample_lib null_id_table sample_pipeline)) (\<lambda>out.
     Inr (get_column ''Outstanding_Debt'' out, get_column ''Occupation'' out,
          get_column ''Age'' out))
   = Inr (Inr (F64S [Some 20, None, Some 20]),
          Inr (StrS [Some ''Teacher'', Some ''Teacher'', None]),
          Inr (F64S [Some 30, Some 30, Some 30]))"
  unfolding null_id_table_def by code_simp

lemma null_id_group_by:
  "ebind (coerced sample_lib null_id_table) (\<lambda>df.
   ebind (group_by_agg sample_lib ''Customer_ID''
            [(''Outstanding_Debt'', Median, ''Outstanding_Debt_median'')] df) (\<lambda>medians.
   ebind (group_by_agg sample_lib ''Customer_ID''
            [(''Occupation'', ModeFirst, ''Occupation_mode'')] df) (\<lambda>modes.
     Inr (medians, modes))))
   = Inr ([(''Customer_ID'', StrS [None]), (''Outstanding_Debt_median'', F64S [Some 20])],
          [(''Customer_ID'', StrS [None]), (''Occupation_mode'', StrS [Some ''Teacher''])])"
  unfolding null_id_table_def by code_simp

lemma null_id_imputer:
  "ebind (coerced sample_lib null_id_table) (\<lambda>df.
   ebind (filtered_table sample_lib sample_pipeline df) (\<lambda>d2.
   ebind (hierarchical_imputer sample_lib sample_pipeline d2) (\<lambda>d6.
     Inr (get_column ''Customer_ID'' df, get_column ''Outstanding_Debt'' d6,
          get_column ''Occupation'' d6, get_column ''Age'' df, get_column ''Age'' d6))))
   = Inr (Inr (StrS [None, None, None]), Inr (F64S [Some 20, None, Some 20]),
          Inr (StrS [Some ''Teacher'', Some ''Teacher'', None]),
          Inr (F64S [Some 30, None, Some 30]), Inr (F64S [Some 30, Some 30, Some 30]))"
  unfolding null_id_table_def by code_simp

text \<open>
  Claim C10 as stated fails: all three identifiers become null.  \<^verbatim>\<open>group_by\<close> pools
  the three records into one group, with the debt median 20 and the occupation mode
  \<open>Teacher\<close>, but neither reaches a record: the missing debt and the missing occupation
  stay null, in the imputer's table and in the output of \<^verbatim>\<open>transform\<close>.  The missing
  age is filled, with 30: by the median age of the record's occupation, not by a customer
  group.
\<close>

theorem null_ids_pooled_counterexample:
  "ebind (coerced sample_lib null_id_table) (\<lambda>df.
   ebind (group_by_agg sample_lib ''Customer_ID''
            [(''Outstanding_Debt'', Median, ''Outstanding_Debt_median'')] df) (\<lambda>medians.
   ebind (group_by_agg sample_lib ''Customer_ID''
            [(''Occupation'', ModeFirst, ''Occupation_mode'')] df) (\<lambda>modes.
     Inr (medians, modes))))
   = Inr ([(''Customer_ID'', StrS [None]), (''Outstanding_Debt_median'', F64S [Some 20])],
          [(''Customer_ID'', StrS [None]), (''Occupation_mode'', StrS [Some ''Teacher''])])
   \<and> ebind (coerced sample_lib null_id_table) (\<lambda>df.
   ebind (filtered_table sample_lib sample_pipeline df) (\<lambda>d2.
   ebind (hierarchical_imputer sample_lib sample_pipeline d2) (\<lambda>d6.
     Inr (get_column ''Customer_ID'' df, get_column ''Outstanding_Debt'' d6,
          get_column ''Occupation'' d6, get_column ''Age'' df, get_column ''Age'' d6))))
   = Inr (Inr (StrS [None, None, None]), Inr (F64S [Some 20, None, Some 20]),
          Inr (StrS [Some ''Teacher'', Some ''Teacher'', None]),
          Inr (F64S [Some 30, None, Some 30]), Inr (F64S [Some 30, Some 30, Some 30]))
   \<and> ebind (fst (transform sample_lib null_id_table sample_pipeline)) (\<lambda>out.
       Inr (get_column ''Outstanding_Debt'' out, get_column ''Occupation'' out,
            get_column ''Age'' out))
     = Inr (Inr (F64S [Some 20, None, Some 20]),
            Inr (StrS [Some ''Teacher'', Some ''Teacher'', None]),
            Inr (F64S [Some 30, Some 30, Some 30]))"
  using null_id_group_by null_id_imputer null_id_sample_output by (intro conjI)

theorem null_customer_id_rows_witness:
  "normalized ([Some ''_'', Some ''!@9#%8__'', Some ''__''] ! 1) = None
   \<and> nums (F64S [None, None, None]) ! 1 = None
   \<and> nums (F64S [Some 20, None, Some 20]) ! 1 = None
   \<and> normalized ([Some ''_'', Some ''!@9#%8__'', Some ''__''] ! 2) = None
   \<and> cells (StrS [None, None, None]) ! 2 = None
   \<and> cells (StrS [Some ''Teacher'', Some ''Teacher'', None]) ! 2 = None"
proof -
  let ?ids = "[Some ''_'', Some ''!@9#%8__'', Some ''__'']"
  from null_id_sample obtain df d2 d3 d4 d5 where
    co: "coerced sample_lib null_id_table = Inr df"
    and filt: "filtered_table sample_lib sample_pipeline df = Inr d2"
    and modes: "group_modes sample_lib sample_pipeline d2 = Inr d3"
    and impn: "impute_numeric sample_pipeline d3 = Inr d4"
    and impc: "impute_categorical sample_pipeline d4 = Inr d5"
    and fresh: "fresh_stats sample_pipeline df" and freshm: "fresh_modes sample_pipeline df"
    and ids: "get_column ''Customer_ID'' null_id_table = Inr (StrS ?ids)"
    and x: "get_column ''Outstanding_Debt'' df = Inr (F64S [Some 20, None, Some 20])"
    and m: "get_column ''Outstanding_Debt_median'' d2 = Inr (F64S [None, None, None])"
    and z: "get_column ''Outstanding_Debt'' d4 = Inr (F64S [Some 20, None, Some 20])"
    and u: "get_column ''Occupation'' d4 = Inr (StrS [Some ''Teacher'', Some ''Teacher'', None])"
    and mo: "get_column ''Occupation_mode'' d4 = Inr (StrS [None, None, None])"
    and w: "get_column ''Occupation'' d5 = Inr (StrS [Some ''Teacher'', Some ''Teacher'', None])"
    by (auto simp: ebind_eq_Inr)
  have n: "map normalized ?ids = [None, None, None]" by code_simp
  then have n1: "normalized (?ids ! 1) = None" and n2: "normalized (?ids ! 2) = None" by simp_all
  note t = null_customer_id_rows [OF co filt modes impn impc fresh freshm ids]
  have c: "''Outstanding_Debt'' \<in> set (numeric_cols sample_pipeline)"
    and c': "''Occupation'' \<in> set (cat_cols sample_pipeline)"
    by (simp_all add: sample_pipeline_def init_def)
  from t c x m z n1
  have "nums (F64S [None, None, None]) ! 1 = None
        \<and> nums (F64S [Some 20, None, Some 20]) ! 1 = nums (F64S [Some 20, None, Some 20]) ! 1"
    by fastforce
  moreover from t c' u mo w n2
  have "cells (StrS [None, None, None]) ! 2 = None
        \<and> (cells (StrS [Some ''Teacher'', Some ''Teacher'', None]) ! 2 = None)"
    by fastforce
  ultimately show ?thesis using n1 n2 by simp
qed

subsection \<open>An implausible age\<close>

lemma map_of_text_normalizer_None:
  "map_of (text_normalizer t) n = None \<longleftrightarrow> map_of t n = None"
  by (simp add: text_normalizer_def map_of_map_str_cols)

lemma cast_columns_age:
  assumes run: "cast_columns L d = Inr d'"
  shows "\<exists>a. map_of d ''Age'' = Some a \<and> ebind (cast_f64 L a) (\<lambda>s. Inr (Some s)) = Inr (map_of d' ''Age'')"
proof -
  from run obtain srcs casts months where
    srcs: "list_all2 (\<lambda>c s. get_column c d = Inr s) float_cols srcs"
    and casts: "list_all2 (\<lambda>s c. cast_f64 L s = Inr c) srcs casts"
    and w: "with_columns (zip float_cols casts @ [(''Credit_History_Age'', months)]) d = Inr d'"
    by (auto simp: cast_columns_def ebind_eq_Inr mapE_Inr)
  from srcs obtain a srcs' where a: "srcs = a # srcs'" "get_column ''Age'' d = Inr a"
    by (auto simp: float_cols_def list_all2_Cons1)
  with casts obtain c casts' where c: "casts = c # casts'" "cast_f64 L a = Inr c"
    by (auto simp: list_all2_Cons1)
  from with_columns_Inr(1) [OF w] c(1) have "map_of d' ''Age'' = Some c"
    by (simp add: float_cols_def map_add_def)
  with a(2) c(2) show ?thesis by (simp add: get_column_Inr)
qed

lemma coerced_age_150_25:
  assumes co: "coerced L t = Inr df"
    and ages: "ebind (get_column ''Age'' (text_normalizer t)) (cast_f64 L)
                 = Inr (F64S [Some 150, Some 25])"
  shows "get_column ''Age'' df = Inr (F64S [None, Some 25])"
proof -
  from co obtain d1 d2 where d1: "cast_columns L (text_normalizer t) = Inr d1"
    and d2: "age_bounds d1 = Inr d2" and df: "df = scrub_negatives d2"
    by (auto simp: coerced_def type_coercer_def ebind_eq_Inr)
  from cast_columns_age [OF d1] ages have "map_of d1 ''Age'' = Some (F64S [Some 150, Some 25])"
    by (auto simp: ebind_eq_Inr get_column_Inr)
  with d2 have "map_of d2 ''Age'' = Some (F64S [None, Some 25])"
    by (auto simp: age_bounds_def get_column_def cmp_lit_def or_k_def null_if_def
        map_of_with_column)
  then show ?thesis
    by (simp add: df map_of_scrub_negatives get_column_def null_negative_def)
qed

lemma stats_of_null_and_25:
  "group_median [Some k, Some k] [None, Some 25] = [Some 25, Some 25]"
  "group_mad [Some k, Some k] [None, Some 25] = [Some 0, Some 0]"
proof -
  show m: "group_median [Some k, Some k] [None, Some 25] = [Some 25, Some 25]"
    by (simp add: group_median_def joined_def group_vals_def drop_nulls_def median_def)
  show "group_mad [Some k, Some k] [None, Some 25] = [Some 0, Some 0]"
    unfolding group_mad_def m
    by (simp add: abs_dev_def lift2_def group_median_def joined_def group_vals_def
        drop_nulls_def median_def)
qed

lemma age_25_imputed:
  assumes filt: "filtered_table L p df = Inr d2"
    and imp: "numeric_imputation L p d2 = Inr d4"
    and fresh: "fresh_stats p df" and c: "''Age'' \<in> set (numeric_cols p)"
    and kc: "get_column ''Customer_ID'' df = Inr kc" and same: "cells kc = [Some k, Some k]"
    and age: "get_column ''Age'' df = Inr (F64S [None, Some 25])"
  shows "get_column ''Age_median'' d2 = Inr (F64S [Some 25, Some 25])"
    and "get_column ''Age_mad'' d2 = Inr (F64S [Some 0, Some 0])"
    and "get_column ''Age'' d2 = Inr (F64S [None, Some 25])"
    and "get_column ''Age'' d4 = Inr (F64S [Some 25, Some 25])"
proof -
  have oe: "outlier_expr (F64S [None, Some 25]) (F64S [Some 25, Some 25]) (F64S [Some 0, Some 0])
         = Inr (F64S [None, Some 25])"
    by (simp add: outlier_expr_def mul_lit_def arith_op_def cmp_def lift2_def or_k_def null_if_def)
  from filtered_table_col [OF filt fresh c] kc age same
  show "get_column ''Age_median'' d2 = Inr (F64S [Some 25, Some 25])"
    and "get_column ''Age_mad'' d2 = Inr (F64S [Some 0, Some 0])"
    and y: "get_column ''Age'' d2 = Inr (F64S [None, Some 25])"
    by (auto simp: get_column_Inr stats_of_null_and_25 oe)
  from numeric_imputation_col [OF filt imp fresh c] kc age same y
  show "get_column ''Age'' d4 = Inr (F64S [Some 25, Some 25])"
    by (auto simp: get_column_Inr stats_of_null_and_25 oe coalesce_opt_def)
qed

lemma implausible_age_sample:
  "ebind (coerced sample_lib implausible_age_table) (\<lambda>df.
   ebind (filtered_table sample_lib sample_pipeline df) (\<lambda>d2.
   ebind (numeric_imputation sample_lib sample_pipeline d2) (\<lambda>d4.
     Inr (fresh_stats sample_pipeline df,
          ebind (get_column ''Age'' (text_normalizer implausible_age_table)) (cast_f64 sample_lib),
          get_column ''Customer_ID'' df))))
   = Inr (True, Inr (F64S [Some 150, Some 25]), Inr (StrS [Some ''CUS_1'', Some ''CUS_1'']))"
  unfolding implausible_age_table_def by code_simp

lemma implausible_age_output:
  "ebind (fst (transform sample_lib implausible_age_table sample_pipeline)) (get_column ''Age'')
     = Inr (F64S [Some 25, Some 25])"
  unfolding implausible_age_table_def by code_simp

text \<open>
  Claim C6.  Take any table with two records whose ages read as 150 and 25 and whose customer
  identifiers are, after normalization, the same non-null value, and any pipeline with
  \<open>Age\<close> among its numeric fields: after TypeCoercer the ages are null and 25; the group's
  median is the median of 25 alone, and its MAD is 0; the filter leaves null and 25; and the
  imputer fills the null with 25.  On the sample table with these ages, both records of the
  output of \<^verbatim>\<open>transform\<close> carry the age 25.
\<close>

theorem age_150_25_scenario:
  "(coerced L t = Inr df \<and> filtered_table L p df = Inr d2 \<and> numeric_imputation L p d2 = Inr d4
      \<and> fresh_stats p df \<and> ''Age'' \<in> set (numeric_cols p)
      \<and> ebind (get_column ''Age'' (text_normalizer t)) (cast_f64 L) = Inr (F64S [Some 150, Some 25])
      \<and> get_column ''Customer_ID'' df = Inr kc \<and> cells kc = [Some k, Some k]
    \<longrightarrow> get_column ''Age'' df = Inr (F64S [None, Some 25])
      \<and> group_median (cells kc) [None, Some 25] = [Some 25, Some 25]
      \<and> group_mad (cells kc) [None, Some 25] = [Some 0, Some 0]
      \<and> median (drop_nulls [None, Some 25]) = Some 25
      \<and> get_column ''Age_median'' d2 = Inr (F64S [Some 25, Some 25])
      \<and> get_column ''Age_mad'' d2 = Inr (F64S [Some 0, Some 0])
      \<and> get_column ''Age'' d2 = Inr (F64S [None, Some 25])
      \<and> get_column ''Age'' d4 = Inr (F64S [Some 25, Some 25]))
   \<and> ebind (fst (transform sample_lib implausible_age_table sample_pipeline)) (get_column ''Age'')
        = Inr (F64S [Some 25, Some 25])"
proof -
  have "get_column ''Age'' df = Inr (F64S [None, Some 25])
      \<and> group_median (cells kc) [None, Some 25] = [Some 25, Some 25]
      \<and> group_mad (cells kc) [None, Some 25] = [Some 0, Some 0]
      \<and> median (drop_nulls [None, Some 25]) = Some 25
      \<and> get_column ''Age_median'' d2 = Inr (F64S [Some 25, Some 25])
      \<and> get_column ''Age_mad'' d2 = Inr (F64S [Some 0, Some 0])
      \<and> get_column ''Age'' d2 = Inr (F64S [None, Some 25])
      \<and> get_column ''Age'' d4 = Inr (F64S [Some 25, Some 25])"
    if co: "coerced L t = Inr df" and filt: "filtered_table L p df = Inr d2"
      and imp: "numeric_imputation L p d2 = Inr d4"
      and fresh: "fresh_stats p df" and c: "''Age'' \<in> set (numeric_cols p)"
      and ages: "ebind (get_column ''Age'' (text_normalizer t)) (cast_f64 L) = Inr (F64S [Some 150, Some 25])"
      and kc: "get_column ''Customer_ID'' df = Inr kc" and same: "cells kc = [Some k, Some k]"
  proof -
    note age = coerced_age_150_25 [OF co ages]
    note r = age_25_imputed [OF filt imp fresh c kc same age]
    have "median (drop_nulls [None, Some 25]) = Some 25"
      by (simp add: drop_nulls_def median_def)
    with age r show ?thesis by (simp add: same stats_of_null_and_25)
  qed
  with implausible_age_output show ?thesis by blast
qed

theorem age_150_25_scenario_witness:
  "ebind (coerced sample_lib implausible_age_table) (\<lambda>df.
   ebind (filtered_table sample_lib sample_pipeline df) (\<lambda>d2.
   ebind (numeric_imputation sample_lib sample_pipeline d2) (\<lambda>d4.
     Inr (get_column ''Age'' df, get_column ''Age_median'' d2, get_column ''Age_mad'' d2,
          get_column ''Age'' d4))))
   = Inr (Inr (F64S [None, Some 25]), Inr (F64S [Some 25, Some 25]),
          Inr (F64S [Some 0, Some 0]), Inr (F64S [Some 25, Some 25]))"
proof -
  from implausible_age_sample obtain df d2 d4 where
    co: "coerced sample_lib implausible_age_table = Inr df"
    and filt: "filtered_table sample_lib sample_pipeline df = Inr d2"
    and imp: "numeric_imputation sample_lib sample_pipeline d2 = Inr d4"
    and fresh: "fresh_stats sample_pipeline df"
    and ages: "ebind (get_column ''Age'' (text_normalizer implausible_age_table)) (cast_f64 sample_lib)
                 = Inr (F64S [Some 150, Some 25])"
    and kc: "get_column ''Customer_ID'' df = Inr (StrS [Some ''CUS_1'', Some ''CUS_1''])"
    by (auto simp: ebind_eq_Inr)
  have c: "''Age'' \<in> set (numeric_cols sample_pipeline)"
    by (simp add: sample_pipeline_def init_def)
  have same: "cells (StrS [Some ''CUS_1'', Some ''CUS_1'']) = [Some (VStr ''CUS_1''), Some (VStr ''CUS_1'')]"
    by simp
  from age_150_25_scenario [of sample_lib implausible_age_table df sample_pipeline d2 d4
      "StrS [Some ''CUS_1'', Some ''CUS_1'']" "VStr ''CUS_1''"]
    co filt imp fresh c ages kc same
  show ?thesis by simp
qed

subsection \<open>The multi-hot loan columns\<close>

lemma loan_col_not_type: "loan_col loan \<noteq> ''Type_of_Loan''"
  by (simp add: loan_col_def)

lemma loan_multi_hot_cols:
  assumes run: "loan_multi_hot L p df = Inr d" and loan: "loan \<in> set (loan_types p)"
  shows "\<exists>ts f. get_column ''Type_of_Loan'' df = Inr (StrS ts) \<and> loan_search L loan = Inr f
     \<and> get_column ''Type_of_Loan'' d
           = Inr (StrS (map (\<lambda>v. Some (case v of None \<Rightarrow> [] | Some s \<Rightarrow> s)) ts))
     \<and> get_column (loan_col loan) d
           = Inr (I8S (map (\<lambda>v. Some (if f (case v of None \<Rightarrow> [] | Some s \<Rightarrow> s) then 1 else 0)) ts))"
proof -
  from run obtain t filled new where t: "get_column ''Type_of_Loan'' df = Inr t"
    and f: "fill_null_str [] t = Inr filled"
    and new: "list_all2 (\<lambda>loan e. loan_indicator L filled loan = Inr e) (loan_types p) new"
    and w: "with_columns new (with_column ''Type_of_Loan'' filled df) = Inr d"
    by (auto simp: loan_multi_hot_def ebind_eq_Inr mapE_Inr Let_def)
  from f obtain ts where ts: "t = StrS ts"
    and filled: "filled = StrS (map (\<lambda>v. Some (case v of None \<Rightarrow> [] | Some s \<Rightarrow> s)) ts)"
    by (cases t) (auto simp: fill_null_str_def split: option.splits)
  note wc = with_columns_Inr [OF w]
  have names: "fst e \<noteq> ''Type_of_Loan''" if "e \<in> set new" for e
  proof -
    from that obtain i where i: "i < length new" "new ! i = e" by (auto simp: in_set_conv_nth)
    with new have "loan_indicator L filled (loan_types p ! i) = Inr e"
      by (auto simp: list_all2_conv_all_nth)
    then show ?thesis
      by (auto simp: loan_indicator_def filled ebind_eq_Inr loan_col_not_type)
  qed
  then have "map_of new ''Type_of_Loan'' = None"
    unfolding map_of_eq_None_iff by force
  with wc(1) have tl: "map_of d ''Type_of_Loan'' = Some filled"
    by (simp add: map_add_def map_of_with_column)
  from loan obtain i where i: "i < length (loan_types p)" "loan_types p ! i = loan"
    by (auto simp: in_set_conv_nth)
  with new have li: "loan_indicator L filled loan = Inr (new ! i)" and il: "i < length new"
    by (auto simp: list_all2_conv_all_nth)
  from li obtain f where fs: "loan_search L loan = Inr f"
    and e: "new ! i = (loan_col loan,
              I8S (map (\<lambda>v. Some (if f (case v of None \<Rightarrow> [] | Some s \<Rightarrow> s) then 1 else 0)) ts))"
    by (auto simp: loan_indicator_def filled ebind_eq_Inr comp_def)
  from il e have "(loan_col loan,
              I8S (map (\<lambda>v. Some (if f (case v of None \<Rightarrow> [] | Some s \<Rightarrow> s) then 1 else 0)) ts))
        \<in> set new" by (metis nth_mem)
  with wc(2) have "map_of new (loan_col loan) =
     Some (I8S (map (\<lambda>v. Some (if f (case v of None \<Rightarrow> [] | Some s \<Rightarrow> s) then 1 else 0)) ts))"
    by simp
  with wc(1) t ts tl filled fs show ?thesis
    by (auto simp: get_column_Inr map_add_def)
qed

lemma loan_sample_output:
  "ebind (fst (transform sample_lib loan_table sample_pipeline)) (\<lambda>out.
     Inr (get_column ''Loan_Auto_Loan'' out, get_column ''Loan_CreditBuilder_Loan'' out,
          get_column ''Loan_Personal_Loan'' out))
   = Inr (Inr (I8S [Some 1, Some 0]), Inr (I8S [Some 1, Some 0]), Inr (I8S [Some 0, Some 0]))"
  unfolding loan_table_def by code_simp

lemma loan_sample_stage:
  "loan_multi_hot L (init ncs ccs [''Auto Loan'', ''Credit-Builder Loan'', ''Personal Loan''] ae)
      [(''Type_of_Loan'', StrS [Some ''Auto Loan, and Credit-Builder Loan''])]
   = Inr [(''Type_of_Loan'', StrS [Some ''Auto Loan, and Credit-Builder Loan'']),
          (''Loan_Auto_Loan'', I8S [Some 1]), (''Loan_CreditBuilder_Loan'', I8S [Some 1]),
          (''Loan_Personal_Loan'', I8S [Some 0])]"
  by code_simp

text \<open>
  Claim C8.  For every table: the null loan texts are first replaced by the empty string,
  and the column generated for a configured loan type holds, for every record, 0 or 1 and
  never null.  With the three configured types of the claim, the text
  \<open>Auto Loan, and Credit-Builder Loan\<close> gives \<open>Loan_Auto_Loan = 1\<close>,
  \<open>Loan_CreditBuilder_Loan = 1\<close> and \<open>Loan_Personal_Loan = 0\<close>, at the encoder and in the
  output of \<^verbatim>\<open>transform\<close> (where a second record with no loan gets 0, 0, 0).
\<close>

theorem loan_multi_hot_spec:
  "(loan_multi_hot L p df = Inr d \<and> loan \<in> set (loan_types p) \<longrightarrow>
      (\<exists>ts xs. get_column ''Type_of_Loan'' df = Inr (StrS ts)
         \<and> get_column ''Type_of_Loan'' d
              = Inr (StrS (map (\<lambda>v. Some (case v of None \<Rightarrow> [] | Some s \<Rightarrow> s)) ts))
         \<and> get_column (loan_col loan) d = Inr (I8S xs) \<and> length xs = length ts
         \<and> list_all (\<lambda>v. v = Some 0 \<or> v = Some 1) xs))
   \<and> loan_multi_hot L (init ncs ccs [''Auto Loan'', ''Credit-Builder Loan'', ''Personal Loan''] ae)
        [(''Type_of_Loan'', StrS [Some ''Auto Loan, and Credit-Builder Loan''])]
      = Inr [(''Type_of_Loan'', StrS [Some ''Auto Loan, and Credit-Builder Loan'']),
             (''Loan_Auto_Loan'', I8S [Some 1]), (''Loan_CreditBuilder_Loan'', I8S [Some 1]),
             (''Loan_Personal_Loan'', I8S [Some 0])]
   \<and> ebind (fst (transform sample_lib loan_table sample_pipeline)) (\<lambda>out.
        Inr (get_column ''Loan_Auto_Loan'' out, get_column ''Loan_CreditBuilder_Loan'' out,
             get_column ''Loan_Personal_Loan'' out))
      = Inr (Inr (I8S [Some 1, Some 0]), Inr (I8S [Some 1, Some 0]), Inr (I8S [Some 0, Some 0]))"
proof -
  have "\<exists>ts xs. get_column ''Type_of_Loan'' df = Inr (StrS ts)
         \<and> get_column ''Type_of_Loan'' d
              = Inr (StrS (map (\<lambda>v. Some (case v of None \<Rightarrow> [] | Some s \<Rightarrow> s)) ts))
         \<and> get_column (loan_col loan) d = Inr (I8S xs) \<and> length xs = length ts
         \<and> list_all (\<lambda>v. v = Some 0 \<or> v = Some 1) xs"
    if run: "loan_multi_hot L p df = Inr d" and loan: "loan \<in> set (loan_types p)"
  proof -
    from loan_multi_hot_cols [OF run loan] obtain ts f where
      a: "get_column ''Type_of_Loan'' df = Inr (StrS ts)"
      and b: "get_column ''Type_of_Loan'' d
           = Inr (StrS (map (\<lambda>v. Some (case v of None \<Rightarrow> [] | Some s \<Rightarrow> s)) ts))"
      and c: "get_column (loan_col loan) d
           = Inr (I8S (map (\<lambda>v. Some (if f (case v of None \<Rightarrow> [] | Some s \<Rightarrow> s) then 1 else 0)) ts))"
      by blast
    have "list_all (\<lambda>v. v = Some 0 \<or> v = Some 1)
            (map (\<lambda>v. Some (if f (case v of None \<Rightarrow> [] | Some s \<Rightarrow> s) then 1 else 0 :: int)) ts)"
      by (simp add: list_all_iff)
    with a b c show ?thesis by (intro exI [of _ ts] exI conjI) simp_all
  qed
  with loan_sample_stage loan_sample_output show ?thesis by blast
qed

theorem loan_multi_hot_witness:
  "get_column (loan_col ''Credit-Builder Loan'')
     [(''Type_of_Loan'', StrS [Some ''Auto Loan, and Credit-Builder Loan'']),
      (''Loan_Auto_Loan'', I8S [Some 1]), (''Loan_CreditBuilder_Loan'', I8S [Some 1]),
      (''Loan_Personal_Loan'', I8S [Some 0])] = Inr (I8S [Some 1])
   \<and> list_all (\<lambda>v. v = Some 0 \<or> v = Some 1) [Some (1 :: int)]"
proof -
  let ?p = "init [] [] [''Auto Loan'', ''Credit-Builder Loan'', ''Personal Loan''] None"
  let ?df = "[(''Type_of_Loan'', StrS [Some ''Auto Loan, and Credit-Builder Loan''])]"
  let ?d = "[(''Type_of_Loan'', StrS [Some ''Auto Loan, and Credit-Builder Loan'']),
             (''Loan_Auto_Loan'', I8S [Some 1]), (''Loan_CreditBuilder_Loan'', I8S [Some 1]),
             (''Loan_Personal_Loan'', I8S [Some 0])]"
  have run: "loan_multi_hot sample_lib ?p ?df = Inr ?d"
    using loan_multi_hot_spec [of sample_lib ?p ?df ?d "''Credit-Builder Loan''" "[]" "[]" None]
    by blast
  have loan: "''Credit-Builder Loan'' \<in> set (loan_types ?p)" by (simp add: init_def)
  have g: "get_column (loan_col ''Credit-Builder Loan'') ?d = Inr (I8S [Some 1])"
    by (simp add: get_column_def loan_col_def sanitize_def)
  from loan_multi_hot_spec [of sample_lib ?p ?df ?d "''Credit-Builder Loan''"] run loan
  have "\<exists>xs. get_column (loan_col ''Credit-Builder Loan'') ?d = Inr (I8S xs)
          \<and> list_all (\<lambda>v. v = Some 0 \<or> v = Some 1) xs" by blast
  with g show ?thesis by auto
qed

subsection \<open>\<^verbatim>\<open>transform\<close> and the instance; \<^verbatim>\<open>transform\<close> twice\<close>

lemma fitted_fields_extend_drop_list [simp]:
  "numeric_cols (extend_drop_list p) = numeric_cols p"
  "cat_cols (extend_drop_list p) = cat_cols p"
  "loan_types (extend_drop_list p) = loan_types p"
  "cat_mappings (extend_drop_list p) = cat_mappings p"
  "credit_mix_map (extend_drop_list p) = credit_mix_map p"
  "payment_map (extend_drop_list p) = payment_map p"
  by (simp_all add: extend_drop_list_def)

lemma steps_extend_drop_list:
  "robust_outlier_filter (extend_drop_list p) = robust_outlier_filter p"
  "group_statistics L (extend_drop_list p) = group_statistics L p"
  "group_modes L (extend_drop_list p) = group_modes L p"
  "impute_numeric (extend_drop_list p) = impute_numeric p"
  "impute_categorical (extend_drop_list p) = impute_categorical p"
  "fixed_maps (extend_drop_list p) = fixed_maps p"
  by (simp_all add: fun_eq_iff robust_outlier_filter_def group_statistics_def group_medians_def
      group_mads_def group_modes_def impute_numeric_def impute_categorical_def fixed_maps_def)

lemma stages_extend_drop_list:
  "filtered_table L (extend_drop_list p) = filtered_table L p"
  "hierarchical_imputer L (extend_drop_list p) = hierarchical_imputer L p"
  "loan_multi_hot L (extend_drop_list p) = loan_multi_hot L p"
  "categorical_encoder (extend_drop_list p) = categorical_encoder p"
  by (simp_all add: fun_eq_iff filtered_table_def hierarchical_imputer_def
      numeric_imputation_def loan_multi_hot_def categorical_encoder_def steps_extend_drop_list)

lemma transform_table_extend_drop_list:
  "transform_table L (extend_drop_list p) df = transform_table L p df"
  by (simp only: transform_table_def stages_extend_drop_list)

lemma generated_cols_extend_drop_list:
  "generated_cols (extend_drop_list p) = generated_cols p"
  by (simp add: generated_cols_def extend_drop_list_def)

lemma cols_to_drop_extend_drop_list:
  "cols_to_drop (extend_drop_list p) = cols_to_drop p @ generated_cols p"
  by (simp add: extend_drop_list_def)

lemma snd_transform:
  "snd (transform L df p) =
     (case transform_table L p df of Inl e \<Rightarrow> p | Inr d \<Rightarrow> extend_drop_list p)"
  by (simp add: transform_def Let_def split: sum.splits)

lemma fst_transform_Inr:
  "fst (transform L df p) = Inr out \<longleftrightarrow>
     (\<exists>d. transform_table L p df = Inr d
          \<and> drop_columns (cols_to_drop p @ generated_cols p) d = Inr out)"
  by (auto simp: transform_def Let_def cols_to_drop_extend_drop_list split: sum.splits)

lemma drop_columns_repeat: "drop_columns (xs @ g @ g) d = drop_columns (xs @ g) d"
proof -
  let ?missing = "filter (\<lambda>n. n \<notin> set (columns d))"
  have split: "?missing (xs @ g @ g) = ?missing (xs @ g) @ ?missing g" by simp
  show ?thesis
  proof (cases "?missing (xs @ g)")
    case Nil
    then have "?missing g = []" by (auto simp: filter_empty_conv)
    with Nil split have "?missing (xs @ g @ g) = []" by simp
    with Nil show ?thesis unfolding drop_columns_def by simp
  next
    case (Cons n rest)
    with split have "?missing (xs @ g @ g) = n # rest @ ?missing g" by simp
    with Cons show ?thesis unfolding drop_columns_def by (simp only: list.case)
  qed
qed

lemma transform_repeat:
  "fst (transform L df (snd (transform L df p))) = fst (transform L df p)"
proof (cases "transform_table L p df")
  case (Inl e)
  then show ?thesis by (simp add: snd_transform) 
next
  case (Inr d)
  then have "snd (transform L df p) = extend_drop_list p" by (simp add: snd_transform)
  with Inr show ?thesis
    by (simp add: transform_def Let_def transform_table_extend_drop_list
        cols_to_drop_extend_drop_list generated_cols_extend_drop_list drop_columns_repeat)
qed

lemma transform_keeps_fitted_fields:
  "numeric_cols (snd (transform L df p)) = numeric_cols p"
  "cat_cols (snd (transform L df p)) = cat_cols p"
  "loan_types (snd (transform L df p)) = loan_types p"
  "cat_cols_auto_encode (snd (transform L df p)) = cat_cols_auto_encode p"
  "global_medians (snd (transform L df p)) = global_medians p"
  "global_modes (snd (transform L df p)) = global_modes p"
  "cat_mappings (snd (transform L df p)) = cat_mappings p"
  "loan_cols (snd (transform L df p)) = loan_cols p"
  "credit_mix_map (snd (transform L df p)) = credit_mix_map p"
  "payment_map (snd (transform L df p)) = payment_map p"
  by (simp_all add: snd_transform extend_drop_list_def split: sum.splits)

text \<open>
  Claim C2 (the code departs from it).  Whenever \<^verbatim>\<open>transform\<close> returns a table it has
  appended the names of the generated columns to the instance's own \<^verbatim>\<open>cols_to_drop\<close>,
  and a second call appends them once more: with a numeric or a categorical field declared,
  the instance after \<^verbatim>\<open>transform\<close> is not the instance before.  (The other fields are
  left as they were, and the table returned for the same input is the same:
  \<open>transform_keeps_fitted_fields\<close>, \<open>transform_repeat\<close>.)
\<close>

theorem transform_extends_drop_list:
  "fst (transform L df p) = Inr out \<longrightarrow>
     cols_to_drop (snd (transform L df p)) = cols_to_drop p @ generated_cols p
     \<and> cols_to_drop (snd (transform L df (snd (transform L df p))))
          = cols_to_drop p @ generated_cols p @ generated_cols p
     \<and> (generated_cols p \<noteq> [] \<longrightarrow> cols_to_drop (snd (transform L df p)) \<noteq> cols_to_drop p)"
proof
  assume "fst (transform L df p) = Inr out"
  then obtain d where d: "transform_table L p df = Inr d" by (auto simp: fst_transform_Inr)
  then have 1: "snd (transform L df p) = extend_drop_list p" by (simp add: snd_transform)
  from d have "transform_table L (extend_drop_list p) df = Inr d"
    by (simp add: transform_table_extend_drop_list)
  then have 2: "snd (transform L df (extend_drop_list p)) = extend_drop_list (extend_drop_list p)"
    by (simp add: snd_transform)
  show "cols_to_drop (snd (transform L df p)) = cols_to_drop p @ generated_cols p
     \<and> cols_to_drop (snd (transform L df (snd (transform L df p))))
          = cols_to_drop p @ generated_cols p @ generated_cols p
     \<and> (generated_cols p \<noteq> [] \<longrightarrow> cols_to_drop (snd (transform L df p)) \<noteq> cols_to_drop p)"
    by (simp add: 1 2 cols_to_drop_extend_drop_list generated_cols_extend_drop_list)
qed

lemma drop_columns_removes:
  assumes "drop_columns ns d = Inr out" and "n \<in> set ns"
  shows "map_of out n = None"
proof -
  from assms(1) have "out = filter (\<lambda>c. fst c \<notin> set ns) d"
    by (auto simp: drop_columns_def split: list.splits)
  with assms(2) show ?thesis by (auto simp: map_of_eq_None_iff)
qed

lemma cast_columns_needs_income:
  assumes "map_of d ''Annual_Income'' = None"
  shows "cast_columns L d = Inl (ColumnNotFound ''Age'')
       \<or> cast_columns L d = Inl (ColumnNotFound ''Annual_Income'')"
proof (cases "map_of d ''Age''")
  case None
  then show ?thesis by (simp add: cast_columns_def float_cols_def get_column_def)
next
  case (Some a)
  with assms show ?thesis by (simp add: cast_columns_def float_cols_def get_column_def)
qed

lemma transform_needs_income:
  assumes "map_of d ''Annual_Income'' = None"
  shows "fst (transform L d p) = Inl (ColumnNotFound ''Age'')
       \<or> fst (transform L d p) = Inl (ColumnNotFound ''Annual_Income'')"
proof -
  from assms have "map_of (text_normalizer d) ''Annual_Income'' = None"
    by (simp add: map_of_text_normalizer_None)
  from cast_columns_needs_income [OF this, of L] show ?thesis
    by (auto simp: transform_def transform_table_def coerced_def type_coercer_def)
qed

lemma clean_sample:
  "ebind (fst (transform sample_lib clean_table sample_pipeline)) (\<lambda>out.
     Inr (get_column ''Age'' clean_table, get_column ''Outstanding_Debt'' clean_table,
          get_column ''Age'' out, get_column ''Outstanding_Debt'' out,
          fst (transform sample_lib out (extend_drop_list sample_pipeline))))
   = Inr (Inr (F64S [Some 30, Some 30]), Inr (F64S [Some 20, Some 20]),
          Inr (F64S [Some 30, Some 30]), Inr (F64S [Some 20, Some 20]),
          Inl (ColumnNotFound ''Annual_Income''))"
  unfolding clean_table_def by code_simp

text \<open>
  Claim C4, as the code has it.  \<^verbatim>\<open>transform\<close> cannot be applied to its own output: the
  table it returns has lost \<open>Annual_Income\<close> (which every instance built by the constructor
  drops), and \<^verbatim>\<open>transform\<close> reads that column, so the second application raises a
  column-not-found error, whatever the instance and the library.  What is repeatable is the
  call itself: \<^verbatim>\<open>transform\<close> on the same input, on the instance as the first call left it,
  returns the same table.
\<close>

theorem transform_twice:
  "fst (transform L df p) = Inr out \<and> ''Annual_Income'' \<in> set (cols_to_drop p) \<longrightarrow>
     (fst (transform L' out p') = Inl (ColumnNotFound ''Age'')
      \<or> fst (transform L' out p') = Inl (ColumnNotFound ''Annual_Income''))
     \<and> fst (transform L df (snd (transform L df p))) = Inr out"
proof
  assume a: "fst (transform L df p) = Inr out \<and> ''Annual_Income'' \<in> set (cols_to_drop p)"
  then obtain d where "drop_columns (cols_to_drop p @ generated_cols p) d = Inr out"
    by (auto simp: fst_transform_Inr)
  from drop_columns_removes [OF this, of "''Annual_Income''"] a
  have "map_of out ''Annual_Income'' = None" by simp
  from transform_needs_income [OF this] a
  show "(fst (transform L' out p') = Inl (ColumnNotFound ''Age'')
      \<or> fst (transform L' out p') = Inl (ColumnNotFound ''Annual_Income''))
     \<and> fst (transform L df (snd (transform L df p))) = Inr out"
    by (simp add: transform_repeat)
qed

text \<open>
  Claim C4 as stated fails: on the clean table \<^verbatim>\<open>transform\<close> returns a table (with the
  ages and debts unchanged), and \<^verbatim>\<open>transform\<close> of that table, on the instance as the
  first call left it, raises \<open>ColumnNotFound Annual_Income\<close>.
\<close>

theorem transform_twice_counterexample:
  "ebind (fst (transform sample_lib clean_table sample_pipeline)) (\<lambda>out.
     Inr (get_column ''Age'' clean_table, get_column ''Outstanding_Debt'' clean_table,
          get_column ''Age'' out, get_column ''Outstanding_Debt'' out,
          fst (transform sample_lib out (extend_drop_list sample_pipeline))))
   = Inr (Inr (F64S [Some 30, Some 30]), Inr (F64S [Some 20, Some 20]),
          Inr (F64S [Some 30, Some 30]), Inr (F64S [Some 20, Some 20]),
          Inl (ColumnNotFound ''Annual_Income''))
   \<and> snd (transform sample_lib clean_table sample_pipeline) = extend_drop_list sample_pipeline"
proof -
  from clean_sample obtain out where "fst (transform sample_lib clean_table sample_pipeline) = Inr out"
    by (auto simp: ebind_eq_Inr)
  then obtain d where "transform_table sample_lib sample_pipeline clean_table = Inr d"
    by (auto simp: fst_transform_Inr)
  then have "snd (transform sample_lib clean_table sample_pipeline) = extend_drop_list sample_pipeline"
    by (simp add: snd_transform)
  with clean_sample show ?thesis by simp
qed

theorem transform_twice_witness:
  "''Annual_Income'' \<in> set (cols_to_drop sample_pipeline)
   \<and> ebind (fst (transform sample_lib clean_table sample_pipeline)) (\<lambda>out.
        Inr (isl (fst (transform sample_lib out sample_pipeline)))) = Inr True
   \<and> isl (fst (transform sample_lib clean_table (snd (transform sample_lib clean_table sample_pipeline)))) = False"
proof -
  from clean_sample obtain out where out: "fst (transform sample_lib clean_table sample_pipeline) = Inr out"
    by (auto simp: ebind_eq_Inr)
  have inc: "''Annual_Income'' \<in> set (cols_to_drop sample_pipeline)"
    by (simp add: sample_pipeline_def init_def)
  from transform_twice [of sample_lib clean_table sample_pipeline out sample_lib sample_pipeline] out inc
  have "isl (fst (transform sample_lib out sample_pipeline))"
    and "fst (transform sample_lib clean_table (snd (transform sample_lib clean_table sample_pipeline))) = Inr out"
    by auto
  with out inc show ?thesis by simp
qed

theorem transform_extends_drop_list_witness:
  "isl (fst (transform sample_lib clean_table sample_pipeline)) = False
   \<and> cols_to_drop sample_pipeline =
       [''Customer_ID'', ''Name'', ''SSN'', ''Month'', ''Annual_Income'', ''Type_of_Loan'',
        ''median_age_per_occ'']
   \<and> cols_to_drop (snd (transform sample_lib clean_table sample_pipeline)) =
       [''Customer_ID'', ''Name'', ''SSN'', ''Month'', ''Annual_Income'', ''Type_of_Loan'',
        ''median_age_per_occ'',
        ''Age_median'', ''Age_mad'', ''Age_abs_dev'', ''Outstanding_Debt_median'',
        ''Outstanding_Debt_mad'', ''Outstanding_Debt_abs_dev'', ''Occupation_mode'']
   \<and> length (cols_to_drop (snd (transform sample_lib clean_table
                 (snd (transform sample_lib clean_table sample_pipeline))))) = 21"
proof -
  from clean_sample obtain out where out: "fst (transform sample_lib clean_table sample_pipeline) = Inr out"
    by (auto simp: ebind_eq_Inr)
  have c: "cols_to_drop sample_pipeline =
       [''Customer_ID'', ''Name'', ''SSN'', ''Month'', ''Annual_Income'', ''Type_of_Loan'',
        ''median_age_per_occ'']"
    and g: "generated_cols sample_pipeline =
       [''Age_median'', ''Age_mad'', ''Age_abs_dev'', ''Outstanding_Debt_median'',
        ''Outstanding_Debt_mad'', ''Outstanding_Debt_abs_dev'', ''Occupation_mode'']"
    by (simp_all add: sample_pipeline_def init_def generated_cols_def)
  from transform_extends_drop_list [of sample_lib clean_table sample_pipeline out] out
  show ?thesis by (simp add: c g)
qed

subsection \<open>The auto-encode vocabularies\<close>

lemma dict_get_dict_set:
  "dict_get (=) (dict_set (=) k v d) k' = (if k' = k then Some v else dict_get (=) d k')"
  by (induction d) auto

lemma fst_dict_set: "fst ` set (dict_set (=) k v d) = insert k (fst ` set d)"
  by (induction d) auto

lemma distinct_dict_set:
  "distinct (map fst d) \<Longrightarrow> distinct (map fst (dict_set (=) k v d))"
proof (induction d)
  case Nil
  then show ?case by simp
next
  case (Cons e d)
  then show ?case using fst_dict_set [of k v d] by (cases e) auto
qed

lemma dict_get_eq_map_of: "dict_get (=) d k = map_of d k"
  by (induction d) auto

lemma foldS_invariant:
  assumes "foldS f xs s = (r, s')" and "P s"
    and "\<And>x a b. x \<in> set xs \<Longrightarrow> P a \<Longrightarrow> f x a = Inr b \<Longrightarrow> P b"
  shows "P s'"
  using assms
proof (induction xs arbitrary: s)
  case Nil
  then show ?case by simp
next
  case (Cons x xs)
  show ?case
  proof (cases "f x s")
    case (Inl e)
    with Cons.prems show ?thesis by simp
  next
    case (Inr a)
    with Cons.prems(2,3) have "P a" by auto
    moreover from Inr Cons.prems(1) have "foldS f xs a = (r, s')" by simp
    ultimately show ?thesis using Cons.IH Cons.prems(3) by auto
  qed
qed

lemma fit_mappings_result:
  assumes "foldS (fit_mapping L df) cols p = (None, p')" and "col \<in> set cols"
  shows "\<exists>s. get_column col df = Inr s
          \<and> dict_get (=) (cat_mappings p') col
               = Some (enumerate_dict (unique_order L (drop_nulls (cells s))))"
  using assms
proof (induction cols arbitrary: p)
  case Nil
  then show ?case by simp
next
  case (Cons c cols)
  from Cons.prems(1) obtain p1 where p1: "fit_mapping L df c p = Inr p1"
    and rest: "foldS (fit_mapping L df) cols p1 = (None, p')"
    by (cases "fit_mapping L df c p") auto
  show ?case
  proof (cases "col \<in> set cols")
    case True
    from Cons.IH [OF rest True] show ?thesis .
  next
    case False
    with Cons.prems(2) have cc: "col = c" by simp
    from p1 obtain s where s: "get_column c df = Inr s"
      and m: "cat_mappings p1 = dict_set (=) c (enumerate_dict (unique_order L (drop_nulls (cells s))))
                                  (cat_mappings p)"
      by (auto simp: fit_mapping_def ebind_eq_Inr Let_def)
    have "dict_get (=) (cat_mappings p') c
            = Some (enumerate_dict (unique_order L (drop_nulls (cells s))))"
    proof (rule foldS_invariant [OF rest, where
          P = "\<lambda>a. dict_get (=) (cat_mappings a) c
                     = Some (enumerate_dict (unique_order L (drop_nulls (cells s))))"])
      show "dict_get (=) (cat_mappings p1) c
              = Some (enumerate_dict (unique_order L (drop_nulls (cells s))))"
        by (simp add: m dict_get_dict_set)
    next
      fix x a b
      assume "x \<in> set cols" and a: "dict_get (=) (cat_mappings a) c
              = Some (enumerate_dict (unique_order L (drop_nulls (cells s))))"
        and b: "fit_mapping L df x a = Inr b"
      with False cc have "x \<noteq> c" by auto
      with a b show "dict_get (=) (cat_mappings b) c
              = Some (enumerate_dict (unique_order L (drop_nulls (cells s))))"
        by (auto simp: fit_mapping_def ebind_eq_Inr Let_def dict_get_dict_set)
    qed
    with s cc show ?thesis by simp
  qed
qed

lemma fit_mappings_distinct:
  assumes "foldS (fit_mapping L df) cols p = (r, p')" and "distinct (map fst (cat_mappings p))"
  shows "distinct (map fst (cat_mappings p'))"
  by (rule foldS_invariant [OF assms(1), where P = "\<lambda>a. distinct (map fst (cat_mappings a))"])
     (auto simp: assms(2) fit_mapping_def ebind_eq_Inr Let_def distinct_dict_set)

lemma fit_Some_mappings:
  assumes "fit L df p = (None, p')"
  shows "\<exists>p2. foldS (fit_mapping L df) (cat_cols_auto_encode p) p2 = (None, p')
            \<and> cat_mappings p2 = cat_mappings p"
proof -
  from assms obtain p1 p2 where 1: "foldS (fit_median df) (numeric_cols p) p = (None, p1)"
    and 2: "foldS (fit_mode df) (cat_cols p1) p1 = (None, p2)"
    and 3: "foldS (fit_mapping L df) (cat_cols_auto_encode p2) p2 = (None, p')"
    by (auto simp: fit_def split: prod.splits option.splits)
  have i1: "cat_cols_auto_encode p1 = cat_cols_auto_encode p \<and> cat_mappings p1 = cat_mappings p"
    by (rule foldS_invariant [OF 1, where
          P = "\<lambda>a. cat_cols_auto_encode a = cat_cols_auto_encode p \<and> cat_mappings a = cat_mappings p"])
       (auto simp: fit_median_def ebind_eq_Inr)
  have i2: "cat_cols_auto_encode p2 = cat_cols_auto_encode p \<and> cat_mappings p2 = cat_mappings p"
    by (rule foldS_invariant [OF 2, where
          P = "\<lambda>a. cat_cols_auto_encode a = cat_cols_auto_encode p \<and> cat_mappings a = cat_mappings p"])
       (auto simp: i1 fit_mode_def ebind_eq_Inr)
  with 3 show ?thesis by auto
qed

text \<open>The dict comprehension over values that are pairwise different as Python keys.\<close>

lemma dict_set_fresh:
  "(\<And>e. e \<in> set d \<Longrightarrow> \<not> py_eq (fst e) k) \<Longrightarrow> dict_set py_eq k v d = d @ [(k, v)]"
  by (induction d) auto

lemma py_eq_VStr: "py_eq (VStr a) v \<longleftrightarrow> v = VStr a"
  by (cases v) auto

lemma fold_enumerate_strs:
  assumes "distinct ss" and "set ss \<inter> fst ` set d = {}" and "fst ` set d \<subseteq> range VStr"
    and "set ss \<subseteq> range VStr"
  shows "fold (\<lambda>e d. dict_set py_eq (snd e) (int (fst e)) d) (enumerate n ss) d
           = d @ zip ss (map int [n..<n + length ss])"
  using assms
proof (induction ss arbitrary: n d)
  case Nil
  then show ?case by simp
next
  case (Cons s ss)
  have fresh: "\<not> py_eq (fst e) s" if "e \<in> set d" for e
  proof -
    from that Cons.prems(3) obtain a where a: "fst e = VStr a" by auto
    from that Cons.prems(2) have "fst e \<noteq> s" by auto
    with a show ?thesis by (auto simp: py_eq_VStr)
  qed
  have 1: "dict_set py_eq s (int n) d = d @ [(s, int n)]"
    by (rule dict_set_fresh) (rule fresh)
  have "fold (\<lambda>e d. dict_set py_eq (snd e) (int (fst e)) d) (enumerate (Suc n) ss) (d @ [(s, int n)])
           = (d @ [(s, int n)]) @ zip ss (map int [Suc n..<Suc n + length ss])"
    using Cons.prems by (intro Cons.IH) auto
  then show ?case
    by (simp add: 1 upt_conv_Cons del: upt_Suc)
qed

lemma enumerate_dict_strs:
  assumes "distinct ss" and "set ss \<subseteq> range VStr"
  shows "enumerate_dict ss = zip ss (map int [0..<length ss])"
  using fold_enumerate_strs [OF assms(1) _ _ assms(2), of "[]" 0]
  by (simp add: enumerate_dict_def)

lemma dict_get_zip_strs:
  "dict_get py_eq (zip ss (map int [n..<n + length ss])) (VStr t)
     = map_option (\<lambda>i. int (n + i)) (first_index ss (VStr t))"
  if "set ss \<subseteq> range VStr"
  using that
proof (induction ss arbitrary: n)
  case Nil
  then show ?case by simp
next
  case (Cons s ss)
  from Cons.prems obtain a where a: "s = VStr a" by auto
  from Cons.prems have "set ss \<subseteq> range VStr" by simp
  from Cons.IH [OF this, of "Suc n"]
  show ?case
    by (auto simp: a upt_conv_Cons option.map_comp comp_def add.commute add.left_commute
        simp del: upt_Suc)
qed

lemma first_index_None: "first_index xs x = None \<longleftrightarrow> x \<notin> set xs"
  by (induction xs) auto

lemma set_drop_nulls: "set (drop_nulls xs) = {x. Some x \<in> set xs}"
  by (force simp: drop_nulls_def)

lemma drop_nulls_strs: "drop_nulls (cells (StrS xs)) = map VStr (drop_nulls xs)"
  by (induction xs) (auto simp: drop_nulls_def)

lemma drop_nulls_map_VStr:
  "drop_nulls (map (map_option VStr) xs) = map VStr (drop_nulls xs)"
  using drop_nulls_strs [of xs] by simp

lemma auto_encode_step_eq:
  "auto_encode_step = (\<lambda>e a. ebind (auto_encode_col e a) (\<lambda>s. Inr (with_column (fst e) s a)))"
  by (simp add: fun_eq_iff auto_encode_step_def auto_encode_col_def ebind_assoc)

lemma auto_encode_loop:
  assumes run: "foldE auto_encode_step ms d = Inr d'" and dist: "distinct (map fst ms)"
    and e: "(col, m) \<in> set ms"
  shows "\<exists>s. get_column col d = Inr s \<and> get_column col d' = Inr (auto_encode_expr m s)"
proof -
  from run have run': "foldE (\<lambda>e a. ebind (auto_encode_col e a) (\<lambda>s. Inr (with_column (fst e) s a))) ms d = Inr d'"
    by (simp add: auto_encode_step_eq)
  have "\<exists>s. auto_encode_col (col, m) d = Inr s \<and> map_of d' (fst (col, m)) = Some s"
  proof (rule foldE_with_column_value [OF run' dist e])
    fix a assume a: "\<And>n. n \<notin> fst ` (set ms - {(col, m)}) \<Longrightarrow> map_of a n = map_of d n"
    have "col \<notin> fst ` (set ms - {(col, m)})"
    proof
      assume "col \<in> fst ` (set ms - {(col, m)})"
      then obtain e' where e': "e' \<in> set ms" "e' \<noteq> (col, m)" "fst e' = col" by auto
      have pair: "(col, snd e') = e'" by (simp add: e'(3) [symmetric])
      with e'(1) have "(col, snd e') \<in> set ms" by simp
      from eq_key_imp_eq_value [OF dist this e] pair e'(2) show False by simp
    qed
    from a [OF this] show "auto_encode_col (col, m) a = auto_encode_col (col, m) d"
      by (simp add: auto_encode_col_def get_column_def)
  qed
  then show ?thesis by (auto simp: auto_encode_col_def ebind_eq_Inr get_column_Inr)
qed

text \<open>
  Claim C5, as the code has it.  Take a library whose \<^verbatim>\<open>unique()\<close> lists every
  distinct value once, a run of \<^verbatim>\<open>fit\<close> that returns, and an auto-encode field that
  is a \<open>String\<close> column of the training table; \<open>order\<close> is the list that
  \<^verbatim>\<open>unique()\<close> returns for the column's non-null values.  Then the mapping that
  \<^verbatim>\<open>fit\<close> stores for the field sends the values of \<open>order\<close>, which are the distinct
  non-null values of the column, to \<open>0, 1, 2, \<dots>\<close> in the order of that list;
  \<^verbatim>\<open>transform\<close> leaves the stored mappings as they are; and its auto-encode loop
  replaces the field by the indices of its values: null stays null, and a value that was
  not in the training column becomes null.  Nothing fixes \<open>order\<close> to the order of the
  rows: it is the library's.
\<close>

theorem auto_encode_mapping:
  "(\<forall>vs. distinct (unique_order L vs) \<and> set (unique_order L vs) = set vs)
   \<and> fit L train p = (None, p') \<and> distinct (map fst (cat_mappings p))
   \<and> col \<in> set (cat_cols_auto_encode p) \<and> get_column col train = Inr (StrS xs)
   \<and> order = unique_order L (map VStr (drop_nulls xs))
   \<longrightarrow> distinct order \<and> set order = {VStr t |t. Some t \<in> set xs}
     \<and> dict_get (=) (cat_mappings p') col = Some (zip order (map int [0..<length order]))
     \<and> cat_mappings (snd (transform L df p')) = cat_mappings p'
     \<and> (\<forall>d d' ys. foldE auto_encode_step (cat_mappings p') d = Inr d'
            \<and> get_column col d = Inr (StrS ys) \<longrightarrow>
          get_column col d' =
            Inr (I64S (map (\<lambda>v. case v of None \<Rightarrow> None
                              | Some t \<Rightarrow> map_option int (first_index order (VStr t))) ys)))
     \<and> (\<forall>t. Some t \<notin> set xs \<longrightarrow> first_index order (VStr t) = None)"
proof (intro impI, elim conjE)
  assume contract: "\<forall>vs. distinct (unique_order L vs) \<and> set (unique_order L vs) = set vs"
    and fit: "fit L train p = (None, p')" and dp: "distinct (map fst (cat_mappings p))"
    and col: "col \<in> set (cat_cols_auto_encode p)"
    and tr: "get_column col train = Inr (StrS xs)"
    and order: "order = unique_order L (map VStr (drop_nulls xs))"
  let ?m = "zip order (map int [0..<length order])"
  from contract order have d: "distinct order"
    and so: "set order = VStr ` {t. Some t \<in> set xs}"
    by (simp_all add: set_drop_nulls)
  then have sub: "set order \<subseteq> range VStr" by auto
  from fit_Some_mappings [OF fit] obtain p2 where
    f: "foldS (fit_mapping L train) (cat_cols_auto_encode p) p2 = (None, p')"
    and m2: "cat_mappings p2 = cat_mappings p" by blast
  from fit_mappings_result [OF f col] tr order
  have "dict_get (=) (cat_mappings p') col = Some (enumerate_dict order)"
    by (auto simp: drop_nulls_map_VStr)
  with d sub have m: "dict_get (=) (cat_mappings p') col = Some ?m"
    by (simp add: enumerate_dict_strs)
  from fit_mappings_distinct [OF f] dp m2 have dm: "distinct (map fst (cat_mappings p'))" by simp
  from m have mem: "(col, ?m) \<in> set (cat_mappings p')"
    by (simp add: dict_get_eq_map_of map_of_SomeD)
  have expr: "auto_encode_expr ?m (StrS ys) =
            I64S (map (\<lambda>v. case v of None \<Rightarrow> None
                              | Some t \<Rightarrow> map_option int (first_index order (VStr t))) ys)" for ys
    using dict_get_zip_strs [OF sub, of 0]
    by (auto simp: auto_encode_expr_def split: option.splits)
  have loop: "get_column col d' =
            Inr (I64S (map (\<lambda>v. case v of None \<Rightarrow> None
                              | Some t \<Rightarrow> map_option int (first_index order (VStr t))) ys))"
    if "foldE auto_encode_step (cat_mappings p') d = Inr d'" "get_column col d = Inr (StrS ys)"
    for d d' ys
    using auto_encode_loop [OF that(1) dm mem] that(2) by (auto simp: expr)
  have unseen: "first_index order (VStr t) = None" if "Some t \<notin> set xs" for t
    using that so by (auto simp: first_index_None)
  from d so m loop unseen transform_keeps_fitted_fields(7) [of L df p']
  show "distinct order \<and> set order = {VStr t |t. Some t \<in> set xs}
     \<and> dict_get (=) (cat_mappings p') col = Some ?m
     \<and> cat_mappings (snd (transform L df p')) = cat_mappings p'
     \<and> (\<forall>d d' ys. foldE auto_encode_step (cat_mappings p') d = Inr d'
            \<and> get_column col d = Inr (StrS ys) \<longrightarrow>
          get_column col d' =
            Inr (I64S (map (\<lambda>v. case v of None \<Rightarrow> None
                              | Some t \<Rightarrow> map_option int (first_index order (VStr t))) ys)))
     \<and> (\<forall>t. Some t \<notin> set xs \<longrightarrow> first_index order (VStr t) = None)"
    by (auto simp: image_def)
qed

text \<open>
  Claim C5 as stated fails for a library that lists the distinct values in another order
  than the rows' (Polars promises none without \<^verbatim>\<open>maintain_order\<close>): the rows hold
  \<open>Teacher\<close> before \<open>Lawyer\<close>, a \<^verbatim>\<open>unique()\<close> that lists each value at its last
  occurrence returns \<open>Lawyer\<close> first, and \<^verbatim>\<open>fit\<close> gives \<open>Lawyer\<close> the index 0.
\<close>

theorem first_seen_order_counterexample:
  "get_column ''Occupation'' occupations_table
     = Inr (StrS [Some ''Teacher'', Some ''Lawyer'', None, Some ''Teacher''])
   \<and> fit last_seen_lib occupations_table occupation_pipeline
     = (None, occupation_pipeline
          \<lparr>cat_mappings := [(''Occupation'', [(VStr ''Lawyer'', 0), (VStr ''Teacher'', 1)])]\<rparr>)"
  by code_simp

lemma auto_encode_sample_output:
  "ebind (fst (transform sample_lib
            (with_column ''Occupation'' (StrS [Some ''Lawyer'', Some ''Doctor'', None, Some ''Teacher''])
               (sample_table (replicate 4 (Some ''CUS_1'')) (replicate 4 (Some 30))
                  (replicate 4 (Some 20)) (replicate 4 None)))
            (snd (fit sample_lib occupations_table occupation_pipeline))))
     (get_column ''Occupation'')
   = Inr (I64S [Some 1, None, None, Some 0])"
  by code_simp

theorem auto_encode_mapping_witness:
  "fst (fit sample_lib occupations_table occupation_pipeline) = None
   \<and> dict_get (=) (cat_mappings (snd (fit sample_lib occupations_table occupation_pipeline)))
        ''Occupation'' = Some [(VStr ''Teacher'', 0), (VStr ''Lawyer'', 1)]
   \<and> first_index [VStr ''Teacher'', VStr ''Lawyer''] (VStr ''Doctor'') = None
   \<and> ebind (fst (transform sample_lib
            (with_column ''Occupation'' (StrS [Some ''Lawyer'', Some ''Doctor'', None, Some ''Teacher''])
               (sample_table (replicate 4 (Some ''CUS_1'')) (replicate 4 (Some 30))
                  (replicate 4 (Some 20)) (replicate 4 None)))
            (snd (fit sample_lib occupations_table occupation_pipeline))))
     (get_column ''Occupation'')
   = Inr (I64S [Some 1, None, None, Some 0])"
proof -
  let ?xs = "[Some ''Teacher'', Some ''Lawyer'', None, Some ''Teacher'']"
  let ?p' = "snd (fit sample_lib occupations_table occupation_pipeline)"
  let ?o = "unique_order sample_lib (map VStr (drop_nulls ?xs))"
  have contract: "\<forall>vs. distinct (unique_order sample_lib vs) \<and> set (unique_order sample_lib vs) = set vs"
    by (simp add: sample_lib_def)
  have f: "fst (fit sample_lib occupations_table occupation_pipeline) = None" by code_simp
  then have fit: "fit sample_lib occupations_table occupation_pipeline = (None, ?p')"
    by (metis prod.collapse)
  have dp: "distinct (map fst (cat_mappings occupation_pipeline))"
    and col: "''Occupation'' \<in> set (cat_cols_auto_encode occupation_pipeline)"
    by (simp_all add: occupation_pipeline_def init_def)
  have tr: "get_column ''Occupation'' occupations_table = Inr (StrS ?xs)"
    by (simp add: occupations_table_def get_column_def)
  have order: "?o = [VStr ''Teacher'', VStr ''Lawyer'']"
    by code_simp
  have unseen: "Some ''Doctor'' \<notin> set ?xs" by simp
  from auto_encode_mapping [of sample_lib occupations_table occupation_pipeline ?p'
      "''Occupation''" ?xs ?o "[]"]
    contract fit dp col tr
  have r: "dict_get (=) (cat_mappings ?p') ''Occupation'' = Some (zip ?o (map int [0..<length ?o]))"
    and u: "\<forall>t. Some t \<notin> set ?xs \<longrightarrow> first_index ?o (VStr t) = None"
    by blast+
  from r have "dict_get (=) (cat_mappings ?p') ''Occupation''
                 = Some [(VStr ''Teacher'', 0), (VStr ''Lawyer'', 1)]"
    unfolding order by (simp add: upt_conv_Cons)
  moreover from u unseen have "first_index [VStr ''Teacher'', VStr ''Lawyer''] (VStr ''Doctor'') = None"
    unfolding order by blast
  ultimately show ?thesis using f auto_encode_sample_output by simp
qed

end
